theory Spec2Isabelle
  imports Main
begin

section \<open>Errors and the outside world\<close>

text \<open>
  The Python exceptions that the modelled code can raise.  \<open>SystemExit\<close> is what
  \<^verbatim>\<open>exit()\<close> raises, \<open>ExternalError\<close> stands for whatever the report and
  figure collaborators of \<^verbatim>\<open>Diagnostic.tearDown\<close> may raise.
\<close>

datatype error =
    KeyError string
  | AssertionError
  | UnboundLocalError string
  | AttributeError string
  | SystemExit
  | IOError string
  | ExternalError string

text \<open>
  External effects are recorded in a trace.  \<open>CreateEnvironment\<close>, \<open>DestroyEnvironment\<close>
  and \<open>PodTearDown\<close> mark the entry into the method of that name; the other events are
  the system calls of the source.
\<close>

datatype event =
    CreateEnvironment string
  | DestroyEnvironment string
  | ShellCall string
  | Spawn "string list" "string option" nat
  | SpawnFailed "string list"
  | OpenFile string nat
  | WaitProc nat
  | CloseFile nat
  | MakeDirs string
  | PodTearDown string

text \<open>
  The root paths that the singleton \<^verbatim>\<open>util.PathManager\<close> holds.  The model takes
  the singleton as initialised, as \<^verbatim>\<open>parse_mdtf_args\<close> leaves it.
\<close>

record path_manager =
  CODE_ROOT :: string
  OBS_DATA_ROOT :: string
  MODEL_DATA_ROOT :: string
  WORKING_DIR :: string
  OUTPUT_DIR :: string

text \<open>
  The state outside the Python objects: the file system (\<^verbatim>\<open>os.path.isfile\<close>,
  \<^verbatim>\<open>os.path.exists\<close>), \<^verbatim>\<open>os.environ\<close>, the path singleton, the outcome of
  the external commands (the exit status of \<^verbatim>\<open>subprocess.call\<close>, whether
  \<^verbatim>\<open>subprocess.Popen\<close> raises \<^verbatim>\<open>OSError\<close>, whether \<^verbatim>\<open>open\<close> raises, whether
  the report collaborators of a job raise), the next free handle, the file handles that
  are open, the child processes that nobody has waited for yet, and the trace.
  Console output is not modelled.
\<close>

record world =
  PathManager :: path_manager
  isfile :: "string \<Rightarrow> bool"
  path_exists :: "string \<Rightarrow> bool"
  environ :: "string \<rightharpoonup> string"
  call_status :: "string \<Rightarrow> int"
  popen_raises :: "string list \<Rightarrow> bool"
  open_raises :: "string \<Rightarrow> bool"
  finalize_raises :: "string \<Rightarrow> bool"
  next_handle :: nat
  open_files :: "nat list"
  children :: "nat list"
  trace :: "event list"

definition environ_get :: "world \<Rightarrow> string \<Rightarrow> error + string" where
  "environ_get w k = (case environ w k of None \<Rightarrow> Inl (KeyError k) | Some v \<Rightarrow> Inr v)"

section \<open>util.py\<close>

text \<open>\<^verbatim>\<open>datadir+"/"+timefreq+"/"+casename+"."+varname+"."+timefreq+".nc"\<close>\<close>

definition makefilepath :: "string \<Rightarrow> string \<Rightarrow> string \<Rightarrow> string \<Rightarrow> string" where
  "makefilepath varname timefreq casename datadir =
     datadir @ ''/'' @ timefreq @ ''/'' @ casename @ ''.'' @ varname @ ''.'' @ timefreq @ ''.nc''"

text \<open>\<^verbatim>\<open>str.lower\<close> on byte strings (the C locale: only A-Z change).\<close>

definition lower_char :: "char \<Rightarrow> char" where
  "lower_char c =
     (let n = (of_char c :: nat) in if 65 \<le> n \<and> n \<le> 90 then char_of (n + 32) else c)"

definition lower :: "string \<Rightarrow> string" where
  "lower s = map lower_char s"

section \<open>shared\_diagnostic.py: the variable list\<close>

text \<open>
  An entry of the \<^verbatim>\<open>varlist\<close> section of settings.yml, as read from the file:
  the keys \<^verbatim>\<open>freq\<close>, \<^verbatim>\<open>requirement\<close> and \<^verbatim>\<open>alternates\<close> may be absent, and
  \<^verbatim>\<open>alternates\<close> may be a scalar instead of a list.  \<^verbatim>\<open>_parse_pod_varlist\<close>
  rewrites the dictionaries in place; the model gives the rewritten entry a type of its
  own, \<open>var\<close>, whose \<open>alternates\<close> is optional because the resolver deletes that key.
\<close>

datatype scalar_or_list = Scalar string | ListOf "string list"

record raw_var =
  raw_name_in_model :: string
  raw_freq :: "string option"
  raw_requirement :: "string option"
  raw_alternates :: "scalar_or_list option"

record var =
  name_in_model :: string
  freq :: string
  required :: bool
  alternates :: "string list option"

definition freq_options :: "string list" where
  "freq_options = [''1hr'', ''3hr'', ''6hr'', ''day'', ''mon'']"

definition default_file_required :: bool where
  "default_file_required = False"

text \<open>The body of the loop of \<^verbatim>\<open>_parse_pod_varlist\<close>, for one entry.\<close>

definition parse_var :: "raw_var \<Rightarrow> error + var" where
  "parse_var v =
     (case raw_freq v of
        None \<Rightarrow> Inl (KeyError ''freq'')
      | Some f \<Rightarrow>
          if f \<notin> set freq_options then Inl AssertionError
          else Inr \<lparr> name_in_model = raw_name_in_model v,
                     freq = f,
                     required = (case raw_requirement v of
                                   Some r \<Rightarrow> lower r = ''required''
                                 | None \<Rightarrow> default_file_required),
                     alternates = Some (case raw_alternates v of
                                          None \<Rightarrow> []
                                        | Some (Scalar a) \<Rightarrow> [a]
                                        | Some (ListOf as) \<Rightarrow> as) \<rparr>)"

fun parse_pod_varlist :: "raw_var list \<Rightarrow> error + var list" where
  "parse_pod_varlist [] = Inr []"
| "parse_pod_varlist (v # rest) =
     (case parse_var v of
        Inl e \<Rightarrow> Inl e
      | Inr v' \<Rightarrow>
          (case parse_pod_varlist rest of
             Inl e \<Rightarrow> Inl e
           | Inr vs \<Rightarrow> Inr (v' # vs)))"

section \<open>shared\_diagnostic.py: the resolver\<close>

text \<open>
  The path of the data file of an entry; both environment variables are looked up for
  every entry, \<^verbatim>\<open>CASENAME\<close> first.
\<close>

definition item_filepath :: "world \<Rightarrow> var \<Rightarrow> error + string" where
  "item_filepath w item =
     (case environ_get w ''CASENAME'' of
        Inl e \<Rightarrow> Inl e
      | Inr casename \<Rightarrow>
          (case environ_get w ''DATADIR'' of
             Inl e \<Rightarrow> Inl e
           | Inr datadir \<Rightarrow>
               Inr (makefilepath (name_in_model item) (freq item) casename datadir)))"

text \<open>The weight of an entry, for the termination of the resolver.\<close>

definition var_weight :: "var \<Rightarrow> nat" where
  "var_weight v = 3 + (case alternates v of None \<Rightarrow> 0 | Some as \<Rightarrow> 5 * length as)"

text \<open>
  \<^verbatim>\<open>_check_for_varlist_files\<close>: \<open>varlist_loop\<close> is its loop over the entries, with
  the two lists it appends to, and \<open>alternates_loop\<close> is the inner loop over the
  alternates of one entry, which calls the whole function on the one-element list
  \<^verbatim>\<open>[new_var]\<close>.  The function returns the two lists of the dictionary
  \<^verbatim>\<open>files\<close> as a pair (found, missing).  It reads the world and changes nothing.
\<close>

function check_for_varlist_files ::
    "world \<Rightarrow> var list \<Rightarrow> error + (string list \<times> string list)"
  and varlist_loop ::
    "world \<Rightarrow> var list \<Rightarrow> string list \<times> string list \<Rightarrow> error + (string list \<times> string list)"
  and alternates_loop ::
    "world \<Rightarrow> var \<Rightarrow> string list \<Rightarrow> string list \<times> string list
       \<Rightarrow> error + (string list \<times> string list)"
where
  "check_for_varlist_files w varlist =
     (case varlist_loop w varlist ([], []) of
        Inl e \<Rightarrow> Inl e
      | Inr (found_list, missing_list) \<Rightarrow>
          Inr (filter (\<lambda>x. x \<noteq> []) found_list, filter (\<lambda>x. x \<noteq> []) missing_list))"
| "varlist_loop w [] acc = Inr acc"
| "varlist_loop w (item # rest) (found_list, missing_list) =
     (case item_filepath w item of
        Inl e \<Rightarrow> Inl e
      | Inr filepath \<Rightarrow>
          if isfile w filepath then varlist_loop w rest (found_list @ [filepath], missing_list)
          else if \<not> required item then varlist_loop w rest (found_list, missing_list)
          else
            (case alternates item of
               None \<Rightarrow> varlist_loop w rest (found_list, missing_list @ [filepath])
             | Some alt_list \<Rightarrow>
                 if \<not> length alt_list > 0
                 then varlist_loop w rest (found_list, missing_list @ [filepath])
                 else
                   (case alternates_loop w item alt_list (found_list, missing_list) of
                      Inl e \<Rightarrow> Inl e
                    | Inr acc \<Rightarrow> varlist_loop w rest acc)))"
| "alternates_loop w item [] acc = Inr acc"
| "alternates_loop w item (alt_item # alts) (found_list, missing_list) =
     (let new_var = item\<lparr> name_in_model := alt_item, alternates := None \<rparr> in
      case check_for_varlist_files w [new_var] of
        Inl e \<Rightarrow> Inl e
      | Inr (new_found, new_missing) \<Rightarrow>
          alternates_loop w item alts (found_list @ new_found, missing_list @ new_missing))"
  by pat_completeness auto

termination
  by (relation "measure (\<lambda>x. case x of
          Inl (w, vl) \<Rightarrow> sum_list (map var_weight vl) + 1
        | Inr (Inl (w, vl, acc)) \<Rightarrow> sum_list (map var_weight vl)
        | Inr (Inr (w, item, alts, acc)) \<Rightarrow> 5 * length alts)")
     (auto simp: var_weight_def)

text \<open>
  What one entry adds to the two lists, in closed form, when \<^verbatim>\<open>CASENAME\<close> is \<open>c\<close>
  and \<^verbatim>\<open>DATADIR\<close> is \<open>d\<close>.  These are not part of the source: the lemma
  \<open>check_closed_form\<close> below proves that the resolver computes them.
\<close>

definition entry_found :: "world \<Rightarrow> string \<Rightarrow> string \<Rightarrow> var \<Rightarrow> string list" where
  "entry_found w c d item =
     (let p = makefilepath (name_in_model item) (freq item) c d in
      if isfile w p then [p]
      else if \<not> required item then []
      else (case alternates item of
              None \<Rightarrow> []
            | Some alts \<Rightarrow> filter (isfile w) (map (\<lambda>a. makefilepath a (freq item) c d) alts)))"

definition entry_missing :: "world \<Rightarrow> string \<Rightarrow> string \<Rightarrow> var \<Rightarrow> string list" where
  "entry_missing w c d item =
     (let p = makefilepath (name_in_model item) (freq item) c d in
      if isfile w p then []
      else if \<not> required item then []
      else (case alternates item of
              None \<Rightarrow> [p]
            | Some alts \<Rightarrow>
                if alts = [] then [p]
                else filter (\<lambda>q. \<not> isfile w q) (map (\<lambda>a. makefilepath a (freq item) c d) alts)))"

section \<open>Concrete inputs\<close>

text \<open>
  A world whose regular files are the given paths, with \<^verbatim>\<open>CASENAME=case\<close> and
  \<^verbatim>\<open>DATADIR=/data\<close>, where every external command succeeds; and a required
  monthly variable \<^verbatim>\<open>pr\<close> with the alternate \<^verbatim>\<open>prc\<close>.
\<close>

definition test_world :: "string list \<Rightarrow> world" where
  "test_world files =
     \<lparr> PathManager = \<lparr> CODE_ROOT = ''/code'', OBS_DATA_ROOT = ''/obs'',
                       MODEL_DATA_ROOT = ''/model'', WORKING_DIR = ''/wk'',
                       OUTPUT_DIR = ''/out'' \<rparr>,
       isfile = (\<lambda>p. p \<in> set files),
       path_exists = (\<lambda>p. True),
       environ = [''CASENAME'' \<mapsto> ''case'', ''DATADIR'' \<mapsto> ''/data''],
       call_status = (\<lambda>c. 0),
       popen_raises = (\<lambda>a. False),
       open_raises = (\<lambda>p. False),
       finalize_raises = (\<lambda>n. False),
       next_handle = 0,
       open_files = [],
       children = [],
       trace = [] \<rparr>"

definition pr_var :: var where
  "pr_var = \<lparr> name_in_model = ''pr'', freq = ''mon'', required = True,
              alternates = Some [''prc''] \<rparr>"

definition optional_raw_var :: raw_var where
  "optional_raw_var = \<lparr> raw_name_in_model = ''pr'', raw_freq = Some ''mon'',
      raw_requirement = None, raw_alternates = None \<rparr>"

section \<open>Paths and strings of the standard library\<close>

text \<open>\<^verbatim>\<open>os.path.join(a, *p)\<close> and \<^verbatim>\<open>os.path.isabs\<close> of \<^verbatim>\<open>posixpath\<close>.\<close>

fun os_path_join :: "string \<Rightarrow> string list \<Rightarrow> string" where
  "os_path_join path [] = path"
| "os_path_join path (b # p) =
     os_path_join
       (if take 1 b = ''/'' then b
        else if path = [] \<or> last path = CHR ''/'' then path @ b
        else path @ ''/'' @ b) p"

definition isabs :: "string \<Rightarrow> bool" where
  "isabs s = (take 1 s = ''/'')"

text \<open>\<^verbatim>\<open>sep.join(xs)\<close>\<close>

fun py_join :: "string \<Rightarrow> string list \<Rightarrow> string" where
  "py_join sep [] = []"
| "py_join sep [x] = x"
| "py_join sep (x # y # ys) = x @ sep @ py_join sep (y # ys)"

text \<open>\<^verbatim>\<open>s.split('.')[-1]\<close>: what follows the last dot, or all of \<open>s\<close>.\<close>

definition last_component :: "string \<Rightarrow> string" where
  "last_component s = rev (takeWhile (\<lambda>c. c \<noteq> CHR ''.'') (rev s))"

section \<open>util.py: environment variables and directories\<close>

text \<open>
  A value handed to \<^verbatim>\<open>setenv\<close>: a string or a boolean (any other scalar is taken in
  its string form).  \<^verbatim>\<open>setenv\<close> is always called with \<^verbatim>\<open>overwrite=True\<close> and a
  dictionary of the caller that nobody reads afterwards.
\<close>

datatype env_value = EnvStr string | EnvBool bool

definition setenv :: "string \<Rightarrow> env_value \<Rightarrow> world \<Rightarrow> world" where
  "setenv varname varvalue w =
     w\<lparr> environ := (environ w)(varname \<mapsto>
           (case varvalue of
              EnvBool b \<Rightarrow> if b then ''1'' else ''0''
            | EnvStr s \<Rightarrow> s)) \<rparr>"

fun setenv_items :: "(string \<times> env_value) list \<Rightarrow> world \<Rightarrow> world" where
  "setenv_items [] w = w"
| "setenv_items ((key, val) # rest) w = setenv_items rest (setenv key val w)"

text \<open>
  \<^verbatim>\<open>os.makedirs\<close> creates the directory and the directories above it, so afterwards
  \<^verbatim>\<open>os.path.exists\<close> holds of every spelling of these: a path names the directory
  \<open>dir\<close> or one above it when, trailing slashes apart, it is \<open>dir\<close> or is followed in
  \<open>dir\<close> by a slash.  The call is taken not to raise.
\<close>

definition strip_slashes :: "string \<Rightarrow> string" where
  "strip_slashes p = rev (dropWhile (\<lambda>c. c = CHR ''/'') (rev p))"

definition made_by :: "string \<Rightarrow> string \<Rightarrow> bool" where
  "made_by dir q =
     (let d = strip_slashes dir; a = strip_slashes q in
      a \<noteq> [] \<and> (a = d \<or> take (length a + 1) d = a @ ''/''))"

definition makedirs :: "string \<Rightarrow> world \<Rightarrow> world" where
  "makedirs dir w =
     w\<lparr> path_exists := (\<lambda>q. path_exists w q \<or> made_by dir q), trace := trace w @ [MakeDirs dir] \<rparr>"

text \<open>The loop of \<^verbatim>\<open>check_required_dirs\<close> over \<^verbatim>\<open>already_exist + create_if_nec\<close>.\<close>

fun check_required_dirs_loop :: "string list \<Rightarrow> string list \<Rightarrow> world \<Rightarrow> error option \<times> world" where
  "check_required_dirs_loop [] create_if_nec w = (None, w)"
| "check_required_dirs_loop (dir_in # rest) create_if_nec w =
     (let dir = (case environ w dir_in of Some v \<Rightarrow> v | None \<Rightarrow> dir_in) in
      if \<not> path_exists w dir then
        (if dir_in \<notin> set create_if_nec then (Some SystemExit, w)
         else check_required_dirs_loop rest create_if_nec (makedirs dir w))
      else check_required_dirs_loop rest create_if_nec w)"

definition check_required_dirs :: "string list \<Rightarrow> string list \<Rightarrow> world \<Rightarrow> error option \<times> world" where
  "check_required_dirs already_exist create_if_nec w =
     check_required_dirs_loop (already_exist @ create_if_nec) create_if_nec w"

definition get_available_programs :: "(string \<times> string) list" where
  "get_available_programs = [(''py'', ''python''), (''ncl'', ''ncl''), (''R'', ''Rscript'')]"

section \<open>shared\_diagnostic.py: the class Diagnostic\<close>

text \<open>
  The attributes of a \<^verbatim>\<open>Diagnostic\<close> (a POD, a job).  \<^verbatim>\<open>POD_WK_DIR\<close> is optional:
  \<^verbatim>\<open>podPaths\<close> sets it only when the object already has \<^verbatim>\<open>MODEL_WK_DIR\<close>, which
  the initializer never gives it, so a caller outside these files has to.  The two
  handles are natural numbers, \<open>None\<close> when the job holds none.  The dictionary
  \<^verbatim>\<open>pod_env_vars\<close> is a list of pairs in the order in which Python iterates over it.
\<close>

record pod =
  name :: string
  POD_CODE_DIR :: string
  POD_OBS_DATA :: string
  POD_WK_DIR :: "string option"
  program :: string
  driver :: string
  long_name :: string
  description :: string
  env :: string
  convention :: string
  varlist :: "var list"
  found_files :: "string list"
  missing_files :: "string list"
  required_programs :: "string list"
  required_python_modules :: "string list"
  required_ncl_scripts :: "string list"
  required_r_packages :: "string list"
  pod_env_vars :: "(string \<times> env_value) list"
  process_obj :: "nat option"
  logfile_obj :: "nat option"

text \<open>The \<^verbatim>\<open>settings\<close> section of settings.yml: every key may be absent.\<close>

record settings =
  yml_program :: "string option"
  yml_driver :: "string option"
  yml_long_name :: "string option"
  yml_description :: "string option"
  yml_env :: "string option"
  yml_convention :: "string option"
  yml_variable_convention :: "string option"
  yml_required_programs :: "scalar_or_list option"
  yml_required_python_modules :: "scalar_or_list option"
  yml_required_ncl_scripts :: "scalar_or_list option"
  yml_required_r_packages :: "scalar_or_list option"
  yml_pod_env_vars :: "(string \<times> env_value) list option"

definition str_setting :: "string option \<Rightarrow> string" where
  "str_setting v = (case v of None \<Rightarrow> [] | Some s \<Rightarrow> s)"

definition list_setting :: "scalar_or_list option \<Rightarrow> string list" where
  "list_setting v = (case v of None \<Rightarrow> [] | Some (Scalar s) \<Rightarrow> [s] | Some (ListOf l) \<Rightarrow> l)"

text \<open>
  \<^verbatim>\<open>_parse_pod_settings\<close>, applied to the object that has its name and paths: the
  empty defaults, overwritten by the keys of the file, the convention, and the
  scalars of the four list attributes wrapped in lists.
\<close>

definition parse_pod_settings :: "settings \<Rightarrow> pod \<Rightarrow> pod" where
  "parse_pod_settings s p =
     p\<lparr> program := str_setting (yml_program s),
        driver := str_setting (yml_driver s),
        long_name := str_setting (yml_long_name s),
        description := str_setting (yml_description s),
        env := str_setting (yml_env s),
        convention :=
          (case yml_variable_convention s of
             Some c \<Rightarrow> c
           | None \<Rightarrow> if str_setting (yml_convention s) = [] then ''CF''
                     else str_setting (yml_convention s)),
        varlist := [],
        found_files := [],
        missing_files := [],
        required_programs := list_setting (yml_required_programs s),
        required_python_modules := list_setting (yml_required_python_modules s),
        required_ncl_scripts := list_setting (yml_required_ncl_scripts s),
        required_r_packages := list_setting (yml_required_r_packages s),
        pod_env_vars := (case yml_pod_env_vars s of None \<Rightarrow> [] | Some d \<Rightarrow> d),
        process_obj := None,
        logfile_obj := None \<rparr>"

text \<open>
  \<^verbatim>\<open>Diagnostic.__init__\<close>, given the two sections of the settings file that
  \<^verbatim>\<open>read_yaml\<close> returned.  An error of \<^verbatim>\<open>_parse_pod_varlist\<close> leaves no object.
\<close>

definition Diagnostic_init :: "world \<Rightarrow> string \<Rightarrow> settings \<Rightarrow> raw_var list \<Rightarrow> error + pod" where
  "Diagnostic_init w pod_name file_settings file_varlist =
     (let self = \<lparr> name = pod_name,
                   POD_CODE_DIR = os_path_join (CODE_ROOT (PathManager w)) [''diagnostics'', pod_name],
                   POD_OBS_DATA = os_path_join (OBS_DATA_ROOT (PathManager w)) [pod_name],
                   POD_WK_DIR = None,
                   program = [], driver = [], long_name = [], description = [], env = [],
                   convention = [], varlist = [], found_files = [], missing_files = [],
                   required_programs = [], required_python_modules = [],
                   required_ncl_scripts = [], required_r_packages = [], pod_env_vars = [],
                   process_obj = None, logfile_obj = None \<rparr>;
          self = parse_pod_settings file_settings self
      in case parse_pod_varlist file_varlist of
           Inl e \<Rightarrow> Inl e
         | Inr config \<Rightarrow> Inr (self\<lparr> varlist := config \<rparr>))"

text \<open>\<^verbatim>\<open>_set_pod_env_vars\<close>\<close>

definition set_pod_env_vars :: "pod \<Rightarrow> world \<Rightarrow> error option \<times> world" where
  "set_pod_env_vars self w =
     (let w1 = setenv ''POD_HOME'' (EnvStr (POD_CODE_DIR self)) w;
          w2 = setenv ''OBS_DATA'' (EnvStr (POD_OBS_DATA self)) w1
      in case POD_WK_DIR self of
           None \<Rightarrow> (Some (AttributeError ''POD_WK_DIR''), w2)
         | Some wk_dir \<Rightarrow>
             (None, setenv_items (pod_env_vars self) (setenv ''WK_DIR'' (EnvStr wk_dir) w2)))"

text \<open>\<^verbatim>\<open>_setup_pod_directories\<close>\<close>

fun make_missing_dirs :: "string \<Rightarrow> string list \<Rightarrow> world \<Rightarrow> world" where
  "make_missing_dirs wk_dir [] w = w"
| "make_missing_dirs wk_dir (d # dirs) w =
     make_missing_dirs wk_dir dirs
       (if \<not> path_exists w (os_path_join wk_dir [d]) then makedirs (os_path_join wk_dir [d]) w
        else w)"

definition setup_pod_directories :: "pod \<Rightarrow> world \<Rightarrow> error option \<times> world" where
  "setup_pod_directories self w =
     (case POD_WK_DIR self of
        None \<Rightarrow> (Some (AttributeError ''POD_WK_DIR''), w)
      | Some wk_dir \<Rightarrow>
          (case check_required_dirs [POD_CODE_DIR self, POD_OBS_DATA self] [wk_dir] w of
             (Some e, w1) \<Rightarrow> (Some e, w1)
           | (None, w1) \<Rightarrow>
               (None, make_missing_dirs wk_dir
                  ['''', ''model'', ''model/PS'', ''model/netCDF'', ''obs'', ''obs/PS'', ''obs/netCDF'']
                  w1)))"

text \<open>
  \<^verbatim>\<open>_check_pod_driver\<close>.  The keys of the dictionary of programs are tried in the
  order \<^verbatim>\<open>py\<close>, \<^verbatim>\<open>ncl\<close>, \<^verbatim>\<open>R\<close>.
\<close>

fun find_driver :: "world \<Rightarrow> string \<Rightarrow> string list \<Rightarrow> string \<Rightarrow> string" where
  "find_driver w code_dir [] drv = drv"
| "find_driver w code_dir (try_file # rest) drv =
     (let try_path = os_path_join code_dir [try_file] in
      if path_exists w try_path then try_path else find_driver w code_dir rest drv)"

definition check_pod_driver :: "pod \<Rightarrow> world \<Rightarrow> error option \<times> pod" where
  "check_pod_driver self w =
     (let programs = get_available_programs;
          self1 =
            (if driver self = [] then
               (let try_filenames = [name self @ ''.'', ''driver.''];
                    file_combos = concat (map (\<lambda>file_root. map (\<lambda>ext. file_root @ ext) (map fst programs))
                                            try_filenames)
                in self\<lparr> driver := find_driver w (POD_CODE_DIR self) file_combos (driver self) \<rparr>)
             else self)
      in if driver self1 = [] then (Some AssertionError, self1)
         else
           (let self2 =
                  (if \<not> isabs (driver self1)
                   then self1\<lparr> driver := os_path_join (POD_CODE_DIR self1) [driver self1] \<rparr>
                   else self1)
            in if \<not> path_exists w (driver self2) then (Some AssertionError, self2)
               else if program self2 = [] then
                 (case map_of programs (last_component (driver self2)) of
                    None \<Rightarrow> (Some AssertionError, self2)
                  | Some prog \<Rightarrow> (None, self2\<lparr> program := prog \<rparr>))
               else (None, self2)))"

text \<open>
  \<^verbatim>\<open>Diagnostic.setUp\<close>: the result is the exception raised, if any, with the object
  and the world as they are at that moment.
\<close>

definition Diagnostic_setUp :: "pod \<Rightarrow> world \<Rightarrow> error option \<times> pod \<times> world" where
  "Diagnostic_setUp self w =
     (case set_pod_env_vars self w of
        (Some e, w1) \<Rightarrow> (Some e, self, w1)
      | (None, w1) \<Rightarrow>
          (case setup_pod_directories self w1 of
             (Some e, w2) \<Rightarrow> (Some e, self, w2)
           | (None, w2) \<Rightarrow>
               (case check_pod_driver self w2 of
                  (Some e, self1) \<Rightarrow> (Some e, self1, w2)
                | (None, self1) \<Rightarrow>
                    (case check_for_varlist_files w2 (varlist self1) of
                       Inl e \<Rightarrow> (Some e, self1, w2)
                     | Inr (found, missing) \<Rightarrow>
                         (None, self1\<lparr> found_files := found, missing_files := missing \<rparr>, w2)))))"

definition run_command :: "pod \<Rightarrow> string" where
  "run_command self = program self @ '' '' @ driver self"

definition validate_command :: "world \<Rightarrow> pod \<Rightarrow> string" where
  "validate_command w self =
     (let command_path = os_path_join (CODE_ROOT (PathManager w)) [''src'', ''validate_environment.sh'']
      in concat
           [command_path,
            '' -v'',
            py_join '' -p '' ([[]] @ required_programs self),
            py_join '' -z '' ([[]] @ map fst (pod_env_vars self)),
            py_join '' -a '' ([[]] @ required_python_modules self),
            py_join '' -b '' ([[]] @ required_ncl_scripts self),
            py_join '' -c '' ([[]] @ required_r_packages self)])"

text \<open>
  \<^verbatim>\<open>Diagnostic.tearDown\<close>: the environment variables are set again, then the report,
  the figures and the cleanup are left to collaborators outside the model, which may
  raise.
\<close>

definition Diagnostic_tearDown :: "pod \<Rightarrow> world \<Rightarrow> error option \<times> world" where
  "Diagnostic_tearDown self w =
     (let w0 = w\<lparr> trace := trace w @ [PodTearDown (name self)] \<rparr> in
      case set_pod_env_vars self w0 of
        (Some e, w1) \<Rightarrow> (Some e, w1)
      | (None, w1) \<Rightarrow>
          if finalize_raises w1 (name self) then (Some (ExternalError (name self)), w1)
          else (None, w1))"

section \<open>environment\_manager.py\<close>

text \<open>
  The two concrete classes are the two values of \<open>kind\<close>; \<open>conda_env_root\<close> is read by
  the conda manager only.  The set \<^verbatim>\<open>self.envs\<close> is a list without repetitions, in
  the order in which Python iterates over the set.
\<close>

datatype manager_kind = NoneEnvironmentManager | CondaEnvironmentManager

record manager =
  kind :: manager_kind
  conda_env_root :: string
  test_mode :: bool
  pods :: "pod list"
  envs :: "string list"

definition set_add :: "string \<Rightarrow> string list \<Rightarrow> string list" where
  "set_add x xs = (if x \<in> set xs then xs else xs @ [x])"

definition dquote :: string where
  "dquote = [CHR 0x22]"

definition set_pod_env :: "manager \<Rightarrow> pod \<Rightarrow> pod" where
  "set_pod_env self p =
     (case kind self of
        NoneEnvironmentManager \<Rightarrow> p
      | CondaEnvironmentManager \<Rightarrow>
          (let keys = map lower (required_programs p) in
           if ''r'' \<in> set keys \<or> ''rscript'' \<in> set keys then p\<lparr> env := ''_MDTF-diagnostics-R'' \<rparr>
           else if ''ncl'' \<in> set keys then p\<lparr> env := ''_MDTF-diagnostics-NCL'' \<rparr>
           else p\<lparr> env := ''_MDTF-diagnostics-python'' \<rparr>))"

text \<open>
  \<^verbatim>\<open>subprocess.Popen\<close> of a command whose handle is dropped: when it raises
  \<^verbatim>\<open>OSError\<close> the caller prints the error and goes on.
\<close>

definition popen_detached :: "string list \<Rightarrow> world \<Rightarrow> world" where
  "popen_detached args w =
     (if popen_raises w args then w\<lparr> trace := trace w @ [SpawnFailed args] \<rparr>
      else w\<lparr> next_handle := Suc (next_handle w),
              children := children w @ [next_handle w],
              trace := trace w @ [Spawn args None (next_handle w)] \<rparr>)"

text \<open>
  \<^verbatim>\<open>_call_conda_create\<close>.  The local variable \<^verbatim>\<open>conda_prefix\<close> is assigned in the
  branch where the specification file exists only; the command string reads it in
  both.
\<close>

definition call_conda_create :: "manager \<Rightarrow> string \<Rightarrow> world \<Rightarrow> error option \<times> world" where
  "call_conda_create self env_name w =
     (let prefix = ''_MDTF-diagnostics'';
          short_name = (if env_name = prefix then ''base'' else drop (length prefix + 1) env_name);
          path = CODE_ROOT (PathManager w) @ ''/src/conda_env_'' @ short_name @ ''.yml'';
          conda_prefix =
            (if \<not> path_exists w path then None
             else Some (os_path_join (conda_env_root self) [env_name]))
      in case conda_prefix of
           None \<Rightarrow> (Some (UnboundLocalError ''conda_prefix''), w)
         | Some cp \<Rightarrow>
             (let commands =
                    ''source '' @ CODE_ROOT (PathManager w) @ ''/src/conda_init.sh && ''
                    @ ''conda env create --force -q -p='' @ dquote @ cp @ dquote
                    @ '' -f='' @ dquote @ path @ dquote
              in (None, popen_detached [''bash'', ''-c'', commands] w)))"

definition create_environment :: "manager \<Rightarrow> string \<Rightarrow> world \<Rightarrow> error option \<times> world" where
  "create_environment self env_name w =
     (let w0 = w\<lparr> trace := trace w @ [CreateEnvironment env_name] \<rparr> in
      case kind self of
        NoneEnvironmentManager \<Rightarrow> (None, w0)
      | CondaEnvironmentManager \<Rightarrow>
          (let conda_prefix = os_path_join (conda_env_root self) [env_name];
               command = ''conda env list | grep -qF '' @ dquote @ conda_prefix @ dquote;
               test = call_status w0 command;
               w1 = w0\<lparr> trace := trace w0 @ [ShellCall command] \<rparr>
           in if test \<noteq> 0 then call_conda_create self env_name w1 else (None, w1)))"

definition destroy_environment :: "manager \<Rightarrow> string \<Rightarrow> world \<Rightarrow> world" where
  "destroy_environment self env_name w = w\<lparr> trace := trace w @ [DestroyEnvironment env_name] \<rparr>"

definition activate_env_command :: "world \<Rightarrow> manager \<Rightarrow> pod \<Rightarrow> string" where
  "activate_env_command w self p =
     (case kind self of
        NoneEnvironmentManager \<Rightarrow> []
      | CondaEnvironmentManager \<Rightarrow>
          (let conda_prefix = os_path_join (conda_env_root self) [env p] in
           ''source '' @ CODE_ROOT (PathManager w) @ ''/src/conda_init.sh && conda activate ''
           @ conda_prefix))"

definition deactivate_env_command :: "manager \<Rightarrow> pod \<Rightarrow> string" where
  "deactivate_env_command self p = (case kind self of NoneEnvironmentManager \<Rightarrow> [] | CondaEnvironmentManager \<Rightarrow> [])"

subsection \<open>setUp\<close>

text \<open>The first loop of \<^verbatim>\<open>setUp\<close> binds every job and collects the names.\<close>

fun bind_pods :: "manager \<Rightarrow> pod list \<Rightarrow> string list \<Rightarrow> pod list \<times> string list" where
  "bind_pods self [] es = ([], es)"
| "bind_pods self (p # ps) es =
     (let p' = set_pod_env self p;
          es' = set_add (env p') es
      in case bind_pods self ps es' of (ps', es'') \<Rightarrow> (p' # ps', es''))"

text \<open>The second loop creates the environments; an exception ends it.\<close>

fun create_environments :: "manager \<Rightarrow> string list \<Rightarrow> world \<Rightarrow> error option \<times> world" where
  "create_environments self [] w = (None, w)"
| "create_environments self (e # es) w =
     (case create_environment self e w of
        (Some err, w1) \<Rightarrow> (Some err, w1)
      | (None, w1) \<Rightarrow> create_environments self es w1)"

definition setUp :: "manager \<Rightarrow> world \<Rightarrow> error option \<times> manager \<times> world" where
  "setUp self w =
     (case bind_pods self (pods self) (envs self) of
        (ps, es) \<Rightarrow>
          (let self1 = self\<lparr> pods := ps, envs := es \<rparr> in
           case create_environments self1 es w of (err, w1) \<Rightarrow> (err, self1, w1)))"

subsection \<open>run\<close>

text \<open>
  The list \<^verbatim>\<open>commands\<close> of \<^verbatim>\<open>run\<close>, with the substitution of test mode, and the
  string that \<^verbatim>\<open>' && '.join([s for s in commands if s])\<close> makes of it.
\<close>

definition command_fragments :: "world \<Rightarrow> manager \<Rightarrow> pod \<Rightarrow> string list" where
  "command_fragments w self p =
     (let cmd = run_command p;
          cmd = (if test_mode self
                 then ''echo '' @ dquote @ ''TEST MODE: would call '' @ cmd @ dquote
                 else cmd)
      in [activate_env_command w self p, validate_command w p, cmd, deactivate_env_command self p])"

definition and_chain :: "string list \<Rightarrow> string" where
  "and_chain commands = py_join '' && '' (filter (\<lambda>s. s \<noteq> []) commands)"

text \<open>
  The body of the first loop of \<^verbatim>\<open>run\<close>, for one job: the result holds the
  exception, if one leaves the loop, the job and the world.  A job with missing files
  is left by \<^verbatim>\<open>continue\<close>.  \<^verbatim>\<open>OSError\<close> of \<^verbatim>\<open>Popen\<close> is caught and printed,
  and the loop goes on; no other exception is caught.
\<close>

definition run_pod :: "manager \<Rightarrow> pod \<Rightarrow> world \<Rightarrow> error option \<times> pod \<times> world" where
  "run_pod self p w =
     (case Diagnostic_setUp p w of
        (Some e, p1, w1) \<Rightarrow> (Some e, p1, w1)
      | (None, p1, w1) \<Rightarrow>
          if missing_files p1 \<noteq> [] then (None, p1, w1)
          else
            (case POD_WK_DIR p1 of
               None \<Rightarrow> (Some (AttributeError ''POD_WK_DIR''), p1, w1)
             | Some wk_dir \<Rightarrow>
                 (let log_path = os_path_join wk_dir [name p1 @ ''.log''] in
                  if open_raises w1 log_path then (Some (IOError log_path), p1, w1)
                  else
                    (let fd = next_handle w1;
                         w2 = w1\<lparr> next_handle := Suc fd,
                                  open_files := open_files w1 @ [fd],
                                  trace := trace w1 @ [OpenFile log_path fd] \<rparr>;
                         p2 = p1\<lparr> logfile_obj := Some fd \<rparr>;
                         args = [''bash'', ''-c'', and_chain (command_fragments w2 self p2)]
                     in if popen_raises w2 args then
                          (None, p2, w2\<lparr> trace := trace w2 @ [SpawnFailed args] \<rparr>)
                        else
                          (let pid = next_handle w2;
                               w3 = w2\<lparr> next_handle := Suc pid,
                                        children := children w2 @ [pid],
                                        trace := trace w2 @ [Spawn args (Some wk_dir) pid] \<rparr>
                           in (None, p2\<lparr> process_obj := Some pid \<rparr>, w3))))))"

text \<open>The first loop of \<^verbatim>\<open>run\<close>; the result holds the jobs as the loop leaves them.\<close>

fun run_loop :: "manager \<Rightarrow> pod list \<Rightarrow> world \<Rightarrow> error option \<times> pod list \<times> world" where
  "run_loop self [] w = (None, [], w)"
| "run_loop self (p # rest) w =
     (case run_pod self p w of
        (Some e, p1, w1) \<Rightarrow> (Some e, p1 # rest, w1)
      | (None, p1, w1) \<Rightarrow>
          (case run_loop self rest w1 of (err, rest', w') \<Rightarrow> (err, p1 # rest', w')))"

text \<open>The second loop of \<^verbatim>\<open>run\<close> waits for the processes and closes the log files.\<close>

definition wait_pod :: "pod \<Rightarrow> world \<Rightarrow> pod \<times> world" where
  "wait_pod p w =
     (let (p1, w1) =
            (case process_obj p of
               Some pid \<Rightarrow>
                 (p\<lparr> process_obj := None \<rparr>,
                  w\<lparr> children := removeAll pid (children w), trace := trace w @ [WaitProc pid] \<rparr>)
             | None \<Rightarrow> (p, w))
      in case logfile_obj p1 of
           Some fd \<Rightarrow>
             (p1\<lparr> logfile_obj := None \<rparr>,
              w1\<lparr> open_files := removeAll fd (open_files w1), trace := trace w1 @ [CloseFile fd] \<rparr>)
         | None \<Rightarrow> (p1, w1))"

fun wait_loop :: "pod list \<Rightarrow> world \<Rightarrow> pod list \<times> world" where
  "wait_loop [] w = ([], w)"
| "wait_loop (p # rest) w =
     (case wait_pod p w of
        (p1, w1) \<Rightarrow> (case wait_loop rest w1 of (rest', w') \<Rightarrow> (p1 # rest', w')))"

definition run :: "manager \<Rightarrow> world \<Rightarrow> error option \<times> manager \<times> world" where
  "run self w =
     (case run_loop self (pods self) w of
        (Some e, ps, w1) \<Rightarrow> (Some e, self\<lparr> pods := ps \<rparr>, w1)
      | (None, ps, w1) \<Rightarrow>
          (case wait_loop ps w1 of (ps', w2) \<Rightarrow> (None, self\<lparr> pods := ps' \<rparr>, w2)))"

subsection \<open>tearDown\<close>

fun tearDown_pods :: "pod list \<Rightarrow> world \<Rightarrow> error option \<times> world" where
  "tearDown_pods [] w = (None, w)"
| "tearDown_pods (p # rest) w =
     (case Diagnostic_tearDown p w of
        (Some e, w1) \<Rightarrow> (Some e, w1)
      | (None, w1) \<Rightarrow> tearDown_pods rest w1)"

fun destroy_environments :: "manager \<Rightarrow> string list \<Rightarrow> world \<Rightarrow> world" where
  "destroy_environments self [] w = w"
| "destroy_environments self (e # es) w = destroy_environments self es (destroy_environment self e w)"

definition tearDown :: "manager \<Rightarrow> world \<Rightarrow> error option \<times> world" where
  "tearDown self w =
     (case tearDown_pods (pods self) w of
        (Some e, w1) \<Rightarrow> (Some e, w1)
      | (None, w1) \<Rightarrow> (None, destroy_environments self (envs self) w1))"

definition weekly_raw_var :: raw_var where
  "weekly_raw_var = \<lparr> raw_name_in_model = ''pr'', raw_freq = Some ''week'',
      raw_requirement = Some ''required'', raw_alternates = None \<rparr>"

definition empty_settings :: settings where
  "empty_settings = \<lparr> yml_program = None, yml_driver = None, yml_long_name = None,
      yml_description = None, yml_env = None, yml_convention = None,
      yml_variable_convention = None, yml_required_programs = None,
      yml_required_python_modules = None, yml_required_ncl_scripts = None,
      yml_required_r_packages = None, yml_pod_env_vars = None \<rparr>"

text \<open>
  The names for which \<^verbatim>\<open>create_environment\<close> was entered, in the order of a trace.
\<close>

fun created :: "event list \<Rightarrow> string list" where
  "created [] = []"
| "created (CreateEnvironment e # evs) = e # created evs"
| "created (ev # evs) = created evs"

text \<open>
  A job named \<open>n\<close> with the driver \<^verbatim>\<open>n.py\<close>, a manager of either kind for a list of
  jobs, and three jobs of which the second misses its data in \<open>test_world []\<close>.
\<close>

definition test_pod :: "string \<Rightarrow> string list \<Rightarrow> var list \<Rightarrow> pod" where
  "test_pod n progs vl =
     \<lparr> name = n,
       POD_CODE_DIR = ''/code/diagnostics/'' @ n,
       POD_OBS_DATA = ''/obs/'' @ n,
       POD_WK_DIR = Some (''/wk/'' @ n),
       program = [], driver = n @ ''.py'', long_name = [], description = [], env = [],
       convention = ''CF'', varlist = vl, found_files = [], missing_files = [],
       required_programs = progs, required_python_modules = [],
       required_ncl_scripts = [], required_r_packages = [], pod_env_vars = [],
       process_obj = None, logfile_obj = None \<rparr>"

definition test_manager :: "manager_kind \<Rightarrow> pod list \<Rightarrow> manager" where
  "test_manager k ps =
     \<lparr> kind = k, conda_env_root = ''/envs'', test_mode = False, pods = ps, envs = [] \<rparr>"

definition three_pods :: "pod list" where
  "three_pods = [test_pod ''a'' [''python''] [], test_pod ''b'' [''Python''] [pr_var], test_pod ''c'' [''ncl''] []]"

text \<open>
  Projections of a trace: the handles of the log files opened and closed, of the
  processes spawned and waited for, the commands that \<^verbatim>\<open>Popen\<close> was called with, and
  the names of the jobs whose \<^verbatim>\<open>tearDown\<close> was entered; and the handles that a list
  of jobs holds.
\<close>

fun is_MakeDirs :: "event \<Rightarrow> bool" where
  "is_MakeDirs (MakeDirs d) = True"
| "is_MakeDirs ev = False"

definition fds_opened :: "event list \<Rightarrow> nat list" where
  "fds_opened tr = concat (map (\<lambda>ev. case ev of OpenFile path fd \<Rightarrow> [fd] | _ \<Rightarrow> []) tr)"

definition fds_closed :: "event list \<Rightarrow> nat list" where
  "fds_closed tr = concat (map (\<lambda>ev. case ev of CloseFile fd \<Rightarrow> [fd] | _ \<Rightarrow> []) tr)"

definition pids_spawned :: "event list \<Rightarrow> nat list" where
  "pids_spawned tr = concat (map (\<lambda>ev. case ev of Spawn args cwd pid \<Rightarrow> [pid] | _ \<Rightarrow> []) tr)"

definition pids_waited :: "event list \<Rightarrow> nat list" where
  "pids_waited tr = concat (map (\<lambda>ev. case ev of WaitProc pid \<Rightarrow> [pid] | _ \<Rightarrow> []) tr)"

definition spawn_attempts :: "event list \<Rightarrow> string list list" where
  "spawn_attempts tr =
     concat (map (\<lambda>ev. case ev of Spawn args cwd pid \<Rightarrow> [args] | SpawnFailed args \<Rightarrow> [args] | _ \<Rightarrow> []) tr)"

definition finalized :: "event list \<Rightarrow> string list" where
  "finalized tr = concat (map (\<lambda>ev. case ev of PodTearDown n \<Rightarrow> [n] | _ \<Rightarrow> []) tr)"

definition log_handles :: "pod list \<Rightarrow> nat list" where
  "log_handles ps = concat (map (\<lambda>p. case logfile_obj p of Some fd \<Rightarrow> [fd] | None \<Rightarrow> []) ps)"

definition proc_handles :: "pod list \<Rightarrow> nat list" where
  "proc_handles ps = concat (map (\<lambda>p. case process_obj p of Some pid \<Rightarrow> [pid] | None \<Rightarrow> []) ps)"

text \<open>A world in which every \<^verbatim>\<open>Popen\<close> raises \<^verbatim>\<open>OSError\<close>.\<close>

definition spawn_failing_world :: world where
  "spawn_failing_world = (test_world [])\<lparr> popen_raises := (\<lambda>args. True) \<rparr>"

text \<open>A world in which the driver script of the job \<^verbatim>\<open>c\<close> does not exist.\<close>

definition driver_missing_world :: world where
  "driver_missing_world =
     (test_world [])\<lparr> path_exists := (\<lambda>p. p \<noteq> ''/code/diagnostics/c/c.py'') \<rparr>"

text \<open>Two jobs: the first has no data to look for, the second misses its data in \<open>test_world []\<close>.\<close>

definition two_pods :: "pod list" where
  "two_pods = [test_pod ''a'' [''python''] [], test_pod ''b'' [''python''] [pr_var]]"

text \<open>A batch of one job, whose data are missing in \<open>test_world []\<close>.\<close>

definition one_skipped_pod :: "pod list" where
  "one_skipped_pod = [test_pod ''b'' [''python''] [pr_var]]"

subsection \<open>The commands of the conda manager\<close>






section \<open>The resolver in closed form\<close>

declare check_for_varlist_files.simps [simp del]

lemma makefilepath_nonempty: "makefilepath v f c d \<noteq> []" "[] \<noteq> makefilepath v f c d"
  by (simp_all add: makefilepath_def)

lemma item_filepath_set:
  "environ w ''CASENAME'' = Some c \<Longrightarrow> environ w ''DATADIR'' = Some d \<Longrightarrow>
   item_filepath w item = Inr (makefilepath (name_in_model item) (freq item) c d)"
  by (simp add: item_filepath_def environ_get_def)

text \<open>An entry without the \<^verbatim>\<open>alternates\<close> key, as the recursive call receives it.\<close>

lemma check_new_var:
  assumes "environ w ''CASENAME'' = Some c" "environ w ''DATADIR'' = Some d"
  shows "check_for_varlist_files w [item\<lparr> name_in_model := a, alternates := None \<rparr>] =
     Inr (let p = makefilepath a (freq item) c d in
          if isfile w p then ([p], [])
          else if \<not> required item then ([], [])
          else ([], [p]))"
  using assms
  by (simp add: check_for_varlist_files.simps item_filepath_set makefilepath_nonempty Let_def)

lemma alternates_loop_eq:
  assumes "environ w ''CASENAME'' = Some c" "environ w ''DATADIR'' = Some d" "required item"
  shows "alternates_loop w item alts (fl, ml) =
     Inr (fl @ filter (isfile w) (map (\<lambda>a. makefilepath a (freq item) c d) alts),
          ml @ filter (\<lambda>p. \<not> isfile w p) (map (\<lambda>a. makefilepath a (freq item) c d) alts))"
  using assms
proof (induction alts arbitrary: fl ml)
  case Nil
  then show ?case by simp
next
  case (Cons a alts)
  then show ?case
    by (simp add: check_new_var Let_def)
qed

lemma varlist_loop_eq:
  assumes "environ w ''CASENAME'' = Some c" "environ w ''DATADIR'' = Some d"
  shows "varlist_loop w vl (fl, ml) =
     Inr (fl @ concat (map (entry_found w c d) vl), ml @ concat (map (entry_missing w c d) vl))"
proof (induction vl arbitrary: fl ml)
  case Nil
  show ?case by simp
next
  case (Cons item rest)
  show ?case
    using assms
    by (simp add: item_filepath_set alternates_loop_eq Cons.IH entry_found_def entry_missing_def
          Let_def split: option.split)
qed

lemma entry_found_nonempty: "[] \<notin> set (entry_found w c d item)"
  by (auto simp: entry_found_def Let_def makefilepath_nonempty split: option.split)

lemma entry_missing_nonempty: "[] \<notin> set (entry_missing w c d item)"
  by (auto simp: entry_missing_def Let_def makefilepath_nonempty split: option.split)

lemma filter_nonempty_concat:
  "(\<And>x. [] \<notin> set (f x)) \<Longrightarrow> filter (\<lambda>x. x \<noteq> []) (concat (map f xs)) = concat (map f xs)"
  by (induction xs) (auto simp: filter_id_conv)

lemma check_closed_form:
  assumes "environ w ''CASENAME'' = Some c" "environ w ''DATADIR'' = Some d"
  shows "check_for_varlist_files w vl =
     Inr (concat (map (entry_found w c d) vl), concat (map (entry_missing w c d) vl))"
  using assms
  by (simp add: check_for_varlist_files.simps varlist_loop_eq filter_nonempty_concat
        entry_found_nonempty entry_missing_nonempty)

lemma check_no_casename:
  assumes "environ w ''CASENAME'' = None"
  shows "check_for_varlist_files w vl =
     (if vl = [] then Inr ([], []) else Inl (KeyError ''CASENAME''))"
  using assms
  by (cases vl) (simp_all add: check_for_varlist_files.simps item_filepath_def environ_get_def)

lemma check_no_datadir:
  assumes "environ w ''CASENAME'' = Some c" "environ w ''DATADIR'' = None"
  shows "check_for_varlist_files w vl =
     (if vl = [] then Inr ([], []) else Inl (KeyError ''DATADIR''))"
  using assms
  by (cases vl) (simp_all add: check_for_varlist_files.simps item_filepath_def environ_get_def)

lemma entry_found_cong: "isfile w' = isfile w \<Longrightarrow> entry_found w' c d = entry_found w c d"
  by (rule ext) (simp add: entry_found_def Let_def split: option.split)

lemma entry_missing_cong: "isfile w' = isfile w \<Longrightarrow> entry_missing w' c d = entry_missing w c d"
  by (rule ext) (simp add: entry_missing_def Let_def split: option.split)

lemma entry_with_alternates:
  assumes "required item"
    and "\<not> isfile w (makefilepath (name_in_model item) (freq item) c d)"
    and "alternates item = Some alts" and "alts \<noteq> []"
  shows "entry_found w c d item = filter (isfile w) (map (\<lambda>a. makefilepath a (freq item) c d) alts)"
    and "entry_missing w c d item =
           filter (\<lambda>p. \<not> isfile w p) (map (\<lambda>a. makefilepath a (freq item) c d) alts)"
  using assms by (simp_all add: entry_found_def entry_missing_def)

lemma concat_alternates:
  "concat (map (\<lambda>a. if P (g a) then [g a] else []) alts) = filter P (map g alts)"
  "concat (map (\<lambda>a. if P (g a) then [] else [g a]) alts) = filter (\<lambda>p. \<not> P p) (map g alts)"
  by (induction alts) simp_all

lemmas eval_simps = check_for_varlist_files.simps item_filepath_def environ_get_def
  makefilepath_def test_world_def pr_var_def Let_def

section \<open>Claims about the resolver\<close>

text \<open>
  Claim C1, as the code has it.  Let a required entry have no file at its primary path
  and a non-empty list of alternates, in a list between the entries \<open>pre\<close> and
  \<open>post\<close>.  The resolver calls itself on every alternate, as a fresh entry that has the
  alternate's name and no \<^verbatim>\<open>alternates\<close> key, and appends what these calls return:
  every alternate whose file exists adds its path to the found files.  What the entry
  adds to the missing files are the paths of alternates, never its own primary path: if
  no alternate has a file, the missing files receive the paths of all the alternates,
  in the order declared.  With exactly one alternate, whose file exists, the entry adds
  that path to the found files and nothing to the missing files.
\<close>

theorem alternates_resolution:
  assumes "environ w ''CASENAME'' = Some c" and "environ w ''DATADIR'' = Some d"
    and "required item"
    and "\<not> isfile w (makefilepath (name_in_model item) (freq item) c d)"
    and "alternates item = Some alts" and "alts \<noteq> []"
    and "check_for_varlist_files w pre = Inr (found_pre, missing_pre)"
    and "check_for_varlist_files w post = Inr (found_post, missing_post)"
  shows "\<exists>found_item missing_item.
      check_for_varlist_files w (pre @ item # post) =
        Inr (found_pre @ found_item @ found_post, missing_pre @ missing_item @ missing_post)
    \<and> (\<forall>a \<in> set alts. \<exists>fa ma.
          check_for_varlist_files w [item\<lparr> name_in_model := a, alternates := None \<rparr>] = Inr (fa, ma))
    \<and> found_item = concat (map (\<lambda>a. fst (projr
          (check_for_varlist_files w [item\<lparr> name_in_model := a, alternates := None \<rparr>]))) alts)
    \<and> missing_item = concat (map (\<lambda>a. snd (projr
          (check_for_varlist_files w [item\<lparr> name_in_model := a, alternates := None \<rparr>]))) alts)
    \<and> found_item = filter (isfile w) (map (\<lambda>a. makefilepath a (freq item) c d) alts)
    \<and> ((\<forall>a \<in> set alts. \<not> isfile w (makefilepath a (freq item) c d)) \<longrightarrow>
          missing_item = map (\<lambda>a. makefilepath a (freq item) c d) alts)
    \<and> (\<forall>a. alts = [a] \<and> isfile w (makefilepath a (freq item) c d) \<longrightarrow>
          found_item = [makefilepath a (freq item) c d] \<and> missing_item = [])"
proof -
  let ?P = "\<lambda>a. makefilepath a (freq item) c d"
  let ?F = "filter (isfile w) (map ?P alts)"
  let ?M = "filter (\<lambda>p. \<not> isfile w p) (map ?P alts)"
  let ?fresh = "\<lambda>a. check_for_varlist_files w [item\<lparr> name_in_model := a, alternates := None \<rparr>]"
  have whole: "check_for_varlist_files w (pre @ item # post) =
      Inr (found_pre @ ?F @ found_post, missing_pre @ ?M @ missing_post)"
    using assms by (simp add: check_closed_form entry_with_alternates)
  have fresh: "?fresh a =
      Inr (if isfile w (?P a) then [?P a] else [], if isfile w (?P a) then [] else [?P a])" for a
    using assms(1-3) by (simp add: check_new_var [where c = c and d = d] Let_def)
  have ex: "\<forall>a \<in> set alts. \<exists>fa ma. ?fresh a = Inr (fa, ma)"
    by (simp add: fresh)
  have cf: "?F = concat (map (\<lambda>a. fst (projr (?fresh a))) alts)"
    by (simp add: fresh concat_alternates(1) [of "isfile w" ?P alts])
  have cm: "?M = concat (map (\<lambda>a. snd (projr (?fresh a))) alts)"
    by (simp add: fresh concat_alternates(2) [of "isfile w" ?P alts])
  have none: "(\<forall>a \<in> set alts. \<not> isfile w (?P a)) \<longrightarrow> ?M = map ?P alts"
    by (auto simp: filter_id_conv)
  have one: "\<forall>a. alts = [a] \<and> isfile w (?P a) \<longrightarrow> ?F = [?P a] \<and> ?M = []"
    by auto
  from whole ex cf cm none one show ?thesis
    by blast
qed

theorem alternates_resolution_witness:
  "environ (test_world [''/data/mon/case.prc.mon.nc'']) ''CASENAME'' = Some ''case''
   \<and> environ (test_world [''/data/mon/case.prc.mon.nc'']) ''DATADIR'' = Some ''/data''
   \<and> required pr_var
   \<and> \<not> isfile (test_world [''/data/mon/case.prc.mon.nc''])
         (makefilepath (name_in_model pr_var) (freq pr_var) ''case'' ''/data'')
   \<and> alternates pr_var = Some [''prc'']
   \<and> check_for_varlist_files (test_world [''/data/mon/case.prc.mon.nc'']) [] = Inr ([], [])
   \<and> check_for_varlist_files (test_world [''/data/mon/case.prc.mon.nc'']) ([] @ pr_var # []) =
       Inr ([''/data/mon/case.prc.mon.nc''], [])"
proof -
  let ?w = "test_world [''/data/mon/case.prc.mon.nc'']"
  have h1: "environ ?w ''CASENAME'' = Some ''case''" by (simp add: test_world_def)
  have h2: "environ ?w ''DATADIR'' = Some ''/data''" by (simp add: test_world_def)
  have h3: "required pr_var" by (simp add: pr_var_def)
  have h4: "\<not> isfile ?w (makefilepath (name_in_model pr_var) (freq pr_var) ''case'' ''/data'')"
    by (simp add: eval_simps)
  have h5: "alternates pr_var = Some [''prc'']" by (simp add: pr_var_def)
  have h6: "[''prc''] \<noteq> []" by simp
  have h7: "check_for_varlist_files ?w [] = Inr ([], [])"
    by (simp add: check_for_varlist_files.simps)
  have alt: "isfile ?w (makefilepath ''prc'' (freq pr_var) ''case'' ''/data'')"
    by (simp add: eval_simps)
  from alternates_resolution [OF h1 h2 h3 h4 h5 h6 h7 h7] alt
  have "check_for_varlist_files ?w ([] @ pr_var # []) =
      Inr ([makefilepath ''prc'' (freq pr_var) ''case'' ''/data''], [])"
    by auto
  then have "check_for_varlist_files ?w ([] @ pr_var # []) = Inr ([''/data/mon/case.prc.mon.nc''], [])"
    by (simp add: makefilepath_def pr_var_def)
  with h1 h2 h3 h4 h5 h7 show ?thesis by blast
qed

text \<open>
  The claim as the specification words it says that the original requirement
  contributes to the missing files when no alternate resolves.  For the required
  variable \<^verbatim>\<open>pr\<close> with the alternate \<^verbatim>\<open>prc\<close> and no file at all, the missing
  files hold the path of \<^verbatim>\<open>prc\<close> only; the path of \<^verbatim>\<open>pr\<close> is not among them.
\<close>

theorem alternates_missing_counterexample:
  "check_for_varlist_files (test_world []) [pr_var] = Inr ([], [''/data/mon/case.prc.mon.nc''])
   \<and> makefilepath (name_in_model pr_var) (freq pr_var) ''case'' ''/data'' = ''/data/mon/case.pr.mon.nc''
   \<and> ''/data/mon/case.pr.mon.nc'' \<notin> set [''/data/mon/case.prc.mon.nc'']"
  by (simp add: eval_simps)

text \<open>
  Claim C7.  The resolver returns no world: it only reads \<^verbatim>\<open>os.path.isfile\<close> and
  the two environment variables.  Resolving a list again, in any later state of the
  world that has the same regular files and the same \<^verbatim>\<open>CASENAME\<close> and
  \<^verbatim>\<open>DATADIR\<close>, gives the same result: the same found and missing files, or the same
  \<^verbatim>\<open>KeyError\<close>.
\<close>

theorem resolver_idempotent:
  assumes "isfile w' = isfile w"
    and "environ w' ''CASENAME'' = environ w ''CASENAME''"
    and "environ w' ''DATADIR'' = environ w ''DATADIR''"
  shows "check_for_varlist_files w' vl = check_for_varlist_files w vl"
proof (cases "environ w ''CASENAME''")
  case None
  with assms show ?thesis by (simp add: check_no_casename)
next
  case (Some c)
  note c = this
  show ?thesis
  proof (cases "environ w ''DATADIR''")
    case None
    with c assms show ?thesis by (simp add: check_no_datadir)
  next
    case (Some d)
    with c assms show ?thesis
      by (simp add: check_closed_form entry_found_cong [OF assms(1)] entry_missing_cong [OF assms(1)])
  qed
qed

theorem resolver_idempotent_witness:
  "isfile ((test_world [''/data/mon/case.prc.mon.nc''])
      \<lparr> environ := (environ (test_world [''/data/mon/case.prc.mon.nc'']))(''WK_DIR'' \<mapsto> ''/wk''),
        next_handle := 3, trace := [MakeDirs ''/wk''] \<rparr>) = isfile (test_world [''/data/mon/case.prc.mon.nc''])
   \<and> check_for_varlist_files ((test_world [''/data/mon/case.prc.mon.nc''])
      \<lparr> environ := (environ (test_world [''/data/mon/case.prc.mon.nc'']))(''WK_DIR'' \<mapsto> ''/wk''),
        next_handle := 3, trace := [MakeDirs ''/wk''] \<rparr>) [pr_var]
     = check_for_varlist_files (test_world [''/data/mon/case.prc.mon.nc'']) [pr_var]
   \<and> check_for_varlist_files (test_world [''/data/mon/case.prc.mon.nc'']) [pr_var]
     = Inr ([''/data/mon/case.prc.mon.nc''], [])"
proof -
  let ?w = "test_world [''/data/mon/case.prc.mon.nc'']"
  let ?w' = "?w\<lparr> environ := (environ ?w)(''WK_DIR'' \<mapsto> ''/wk''), next_handle := 3,
                  trace := [MakeDirs ''/wk''] \<rparr>"
  have h1: "isfile ?w' = isfile ?w" by simp
  have h2: "environ ?w' ''CASENAME'' = environ ?w ''CASENAME''" by simp
  have h3: "environ ?w' ''DATADIR'' = environ ?w ''DATADIR''" by simp
  have v: "check_for_varlist_files ?w [pr_var] = Inr ([''/data/mon/case.prc.mon.nc''], [])"
    by (simp add: eval_simps)
  from resolver_idempotent [OF h1 h2 h3, of "[pr_var]"] h1 v show ?thesis
    by blast
qed

lemma parse_pod_varlist_nth:
  "parse_pod_varlist vl = Inr items \<Longrightarrow>
   length items = length vl \<and> (\<forall>i < length vl. parse_var (vl ! i) = Inr (items ! i))"
proof (induction vl arbitrary: items)
  case Nil
  then show ?case by simp
next
  case (Cons v rest)
  then obtain v' vs where v': "parse_var v = Inr v'" and vs: "parse_pod_varlist rest = Inr vs"
    and items: "items = v' # vs"
    by (auto split: sum.splits)
  from Cons.IH [OF vs] have len: "length vs = length rest"
    and nth: "\<And>i. i < length rest \<Longrightarrow> parse_var (rest ! i) = Inr (vs ! i)"
    by auto
  show ?case
  proof (intro conjI allI impI)
    show "length items = length (v # rest)" using items len by simp
  next
    fix i assume "i < length (v # rest)"
    then show "parse_var ((v # rest) ! i) = Inr (items ! i)"
      using v' items nth by (cases i) auto
  qed
qed

lemma parse_var_required_default:
  "parse_var v = Inr item \<Longrightarrow> raw_requirement v = None \<Longrightarrow> \<not> required item"
  by (auto simp: parse_var_def default_file_required_def split: option.splits if_splits)

text \<open>
  Claim C10.  An entry of the variable list without a \<^verbatim>\<open>requirement\<close> key is parsed
  to an entry that is not required.  When its data file is absent, the resolver adds
  nothing for it to the found files or to the missing files, and the result for the
  whole list is the result for the list without that entry, so the entry cannot make
  the missing files non-empty.
\<close>

theorem optional_by_default:
  assumes "parse_pod_varlist vl = Inr items"
    and "i < length vl"
    and "raw_requirement (vl ! i) = None"
    and "environ w ''CASENAME'' = Some c" and "environ w ''DATADIR'' = Some d"
    and "\<not> isfile w (makefilepath (name_in_model (items ! i)) (freq (items ! i)) c d)"
  shows "\<not> required (items ! i)
    \<and> check_for_varlist_files w [items ! i] = Inr ([], [])
    \<and> check_for_varlist_files w items =
        check_for_varlist_files w (take i items @ drop (Suc i) items)"
proof -
  from parse_pod_varlist_nth [OF assms(1)] assms(2)
  have len: "i < length items" and p: "parse_var (vl ! i) = Inr (items ! i)"
    by auto
  from parse_var_required_default [OF p assms(3)] have opt: "\<not> required (items ! i)" .
  have f: "entry_found w c d (items ! i) = []" and m: "entry_missing w c d (items ! i) = []"
    using opt assms(6) by (simp_all add: entry_found_def entry_missing_def)
  have split: "items = take i items @ items ! i # drop (Suc i) items"
    using len by (rule id_take_nth_drop)
  have one: "check_for_varlist_files w [items ! i] = Inr ([], [])"
    using assms(4,5) f m by (simp add: check_closed_form)
  have "check_for_varlist_files w (take i items @ items ! i # drop (Suc i) items) =
        check_for_varlist_files w (take i items @ drop (Suc i) items)"
    using assms(4,5) f m by (simp add: check_closed_form)
  with split have "check_for_varlist_files w items =
        check_for_varlist_files w (take i items @ drop (Suc i) items)"
    by simp
  with opt one show ?thesis by blast
qed

theorem optional_by_default_witness:
  "parse_pod_varlist [optional_raw_var] =
      Inr [\<lparr> name_in_model = ''pr'', freq = ''mon'', required = False, alternates = Some [] \<rparr>]
   \<and> raw_requirement ([optional_raw_var] ! 0) = None
   \<and> \<not> isfile (test_world []) ''/data/mon/case.pr.mon.nc''
   \<and> check_for_varlist_files (test_world [])
        [\<lparr> name_in_model = ''pr'', freq = ''mon'', required = False, alternates = Some [] \<rparr>] = Inr ([], [])"
proof -
  let ?items = "[\<lparr> name_in_model = ''pr'', freq = ''mon'', required = False, alternates = Some [] \<rparr>]"
  have h1: "parse_pod_varlist [optional_raw_var] = Inr ?items"
    by (simp add: parse_var_def optional_raw_var_def freq_options_def default_file_required_def)
  have h2: "(0::nat) < length [optional_raw_var]" by simp
  have h3: "raw_requirement ([optional_raw_var] ! 0) = None" by (simp add: optional_raw_var_def)
  have h4: "environ (test_world []) ''CASENAME'' = Some ''case''" by (simp add: test_world_def)
  have h5: "environ (test_world []) ''DATADIR'' = Some ''/data''" by (simp add: test_world_def)
  have h6: "\<not> isfile (test_world [])
      (makefilepath (name_in_model (?items ! 0)) (freq (?items ! 0)) ''case'' ''/data'')"
    by (simp add: test_world_def)
  have h7: "\<not> isfile (test_world []) ''/data/mon/case.pr.mon.nc''" by (simp add: test_world_def)
  from optional_by_default [OF h1 h2 h3 h4 h5 h6] h1 h3 h7 show ?thesis
    by simp
qed

section \<open>Claims about the parsing of the variable list\<close>

lemma parse_var_cases:
  "parse_var v =
     (case raw_freq v of
        None \<Rightarrow> Inl (KeyError ''freq'')
      | Some f \<Rightarrow> if f \<in> set freq_options then parse_var v else Inl AssertionError)"
  by (simp add: parse_var_def split: option.split)

lemma parse_var_Inr_iff:
  "(\<exists>v'. parse_var v = Inr v') \<longleftrightarrow> raw_freq v \<in> Some ` set freq_options"
  by (cases "raw_freq v") (auto simp: parse_var_def)

lemma parse_var_Inl:
  "parse_var v = Inl e \<Longrightarrow> raw_freq v \<noteq> None \<Longrightarrow> e = AssertionError"
  by (auto simp: parse_var_def split: option.splits if_splits)

lemma parse_pod_varlist_Inr_iff:
  "(\<exists>config. parse_pod_varlist vl = Inr config) \<longleftrightarrow> (\<forall>v \<in> set vl. raw_freq v \<in> Some ` set freq_options)"
proof (induction vl)
  case Nil
  show ?case by simp
next
  case (Cons v rest)
  show ?case
  proof (cases "parse_var v")
    case (Inl e)
    then have "\<not> (\<exists>v'. parse_var v = Inr v')" by simp
    then have "raw_freq v \<notin> Some ` set freq_options" using parse_var_Inr_iff [of v] by blast
    moreover have "\<not> (\<exists>config. parse_pod_varlist (v # rest) = Inr config)" using Inl by simp
    ultimately show ?thesis by (metis list.set_intros(1))
  next
    case (Inr v')
    then have "\<exists>v'. parse_var v = Inr v'" by blast
    then have ok: "raw_freq v \<in> Some ` set freq_options" using parse_var_Inr_iff [of v] by blast
    show ?thesis
    proof (cases "parse_pod_varlist rest")
      case (Inl e)
      with Cons.IH have "\<not> (\<forall>v \<in> set rest. raw_freq v \<in> Some ` set freq_options)" by simp
      with Inl Inr show ?thesis by simp
    next
      case (Inr vs)
      with Cons.IH have "\<forall>v \<in> set rest. raw_freq v \<in> Some ` set freq_options" by simp
      with Inr \<open>parse_var v = Inr v'\<close> ok show ?thesis by simp
    qed
  qed
qed

lemma parse_pod_varlist_Inl:
  "parse_pod_varlist vl = Inl e \<Longrightarrow> \<forall>v \<in> set vl. raw_freq v \<noteq> None \<Longrightarrow> e = AssertionError"
proof (induction vl)
  case Nil
  then show ?case by simp
next
  case (Cons v rest)
  then show ?case
    by (auto split: sum.splits dest: parse_var_Inl)
qed

text \<open>
  Claim C6.  \<^verbatim>\<open>_parse_pod_varlist\<close> returns the parsed list exactly when the
  frequency of every entry is one of \<^verbatim>\<open>1hr\<close>, \<^verbatim>\<open>3hr\<close>, \<^verbatim>\<open>6hr\<close>, \<^verbatim>\<open>day\<close>,
  \<^verbatim>\<open>mon\<close>, and raises exactly when some entry has another frequency (or none);
  when every entry carries a frequency, what it raises is the \<^verbatim>\<open>AssertionError\<close> of
  the check.  The error leaves the initializer of the job, so that no job exists on
  which dependency resolution could run.
\<close>

theorem frequency_validation:
  "((\<exists>config. parse_pod_varlist vl = Inr config) \<longleftrightarrow>
      (\<forall>v \<in> set vl. raw_freq v \<in> Some ` set freq_options))
   \<and> ((\<exists>e. parse_pod_varlist vl = Inl e) \<longleftrightarrow>
      (\<exists>v \<in> set vl. raw_freq v \<notin> Some ` set freq_options))
   \<and> ((\<forall>v \<in> set vl. raw_freq v \<noteq> None) \<longrightarrow>
        (parse_pod_varlist vl = Inl AssertionError \<longleftrightarrow>
           (\<exists>v \<in> set vl. raw_freq v \<notin> Some ` set freq_options)))
   \<and> (\<forall>e. parse_pod_varlist vl = Inl e \<longrightarrow> Diagnostic_init w pod_name file_settings vl = Inl e)
   \<and> set freq_options = {''1hr'', ''3hr'', ''6hr'', ''day'', ''mon''}"
proof -
  have a: "(\<exists>config. parse_pod_varlist vl = Inr config) \<longleftrightarrow>
      (\<forall>v \<in> set vl. raw_freq v \<in> Some ` set freq_options)"
    by (rule parse_pod_varlist_Inr_iff)
  have b: "(\<exists>e. parse_pod_varlist vl = Inl e) \<longleftrightarrow>
      (\<exists>v \<in> set vl. raw_freq v \<notin> Some ` set freq_options)"
    using a by (cases "parse_pod_varlist vl") auto
  have c: "(\<forall>v \<in> set vl. raw_freq v \<noteq> None) \<longrightarrow>
        (parse_pod_varlist vl = Inl AssertionError \<longleftrightarrow>
           (\<exists>v \<in> set vl. raw_freq v \<notin> Some ` set freq_options))"
    using b parse_pod_varlist_Inl [of vl] by blast
  have d: "\<forall>e. parse_pod_varlist vl = Inl e \<longrightarrow> Diagnostic_init w pod_name file_settings vl = Inl e"
    by (simp add: Diagnostic_init_def Let_def)
  have e: "set freq_options = {''1hr'', ''3hr'', ''6hr'', ''day'', ''mon''}"
    by (simp add: freq_options_def)
  from a b c d e show ?thesis by blast
qed

theorem frequency_validation_witness:
  "raw_freq weekly_raw_var = Some ''week''
   \<and> Some ''week'' \<notin> Some ` set freq_options
   \<and> parse_pod_varlist [optional_raw_var, weekly_raw_var] = Inl AssertionError
   \<and> Diagnostic_init (test_world []) ''pod'' empty_settings [optional_raw_var, weekly_raw_var]
        = Inl AssertionError
   \<and> raw_freq optional_raw_var = Some ''mon''
   \<and> (\<exists>config. parse_pod_varlist [optional_raw_var] = Inr config)"
proof -
  have h1: "raw_freq weekly_raw_var = Some ''week''" by (simp add: weekly_raw_var_def)
  have h2: "Some ''week'' \<notin> Some ` set freq_options" by (simp add: freq_options_def)
  have h3: "raw_freq optional_raw_var = Some ''mon''" by (simp add: optional_raw_var_def)
  have h4: "Some ''mon'' \<in> Some ` set freq_options" by (simp add: freq_options_def)
  have tagged: "\<forall>v \<in> set [optional_raw_var, weekly_raw_var]. raw_freq v \<noteq> None"
    using h1 h3 by simp
  have bad: "\<exists>v \<in> set [optional_raw_var, weekly_raw_var]. raw_freq v \<notin> Some ` set freq_options"
    using h1 h2 by simp
  have good: "\<forall>v \<in> set [optional_raw_var]. raw_freq v \<in> Some ` set freq_options"
    using h3 h4 by simp
  from frequency_validation [of "[optional_raw_var, weekly_raw_var]" "test_world []" "''pod''" empty_settings]
    tagged bad
  have f: "parse_pod_varlist [optional_raw_var, weekly_raw_var] = Inl AssertionError"
    and g: "Diagnostic_init (test_world []) ''pod'' empty_settings [optional_raw_var, weekly_raw_var]
        = Inl AssertionError"
    by blast+
  from frequency_validation [of "[optional_raw_var]" "test_world []" "''pod''" empty_settings] good
  have k: "\<exists>config. parse_pod_varlist [optional_raw_var] = Inr config"
    by blast
  from h1 h2 h3 f g k show ?thesis by blast
qed

section \<open>Claims about the composed command\<close>





lemma validate_command_nonempty: "validate_command w p \<noteq> []"
  by (simp add: validate_command_def Let_def)


text \<open>
  Claim C5.  With test mode enabled the list of fragments is the list of the disabled
  mode with the third fragment, the run command, replaced by an \<^verbatim>\<open>echo\<close> of what
  would have been called; the activate, validate and deactivate fragments are the same.
\<close>

theorem test_mode_substitution:
  "command_fragments w (self\<lparr> test_mode := True \<rparr>) p =
     (command_fragments w (self\<lparr> test_mode := False \<rparr>) p)
       [2 := ''echo '' @ dquote @ ''TEST MODE: would call '' @ run_command p @ dquote]
   \<and> command_fragments w (self\<lparr> test_mode := False \<rparr>) p =
       [activate_env_command w self p, validate_command w p, run_command p,
        deactivate_env_command self p]
   \<and> command_fragments w (self\<lparr> test_mode := True \<rparr>) p =
       [activate_env_command w self p, validate_command w p,
        ''echo '' @ dquote @ ''TEST MODE: would call '' @ run_command p @ dquote,
        deactivate_env_command self p]"
  by (simp add: command_fragments_def activate_env_command_def deactivate_env_command_def Let_def
        split: manager_kind.split)

section \<open>Claims about setUp\<close>

lemma created_append: "created (xs @ ys) = created xs @ created ys"
  by (induction xs rule: created.induct) simp_all

lemma set_set_add: "set (set_add x xs) = insert x (set xs)"
  by (auto simp: set_add_def)

lemma distinct_set_add: "distinct xs \<Longrightarrow> distinct (set_add x xs)"
  by (simp add: set_add_def)

lemma bind_pods_props:
  "bind_pods m ps es = (ps', es') \<Longrightarrow>
     ps' = map (set_pod_env m) ps
     \<and> set es' = set es \<union> env ` set ps'
     \<and> (distinct es \<longrightarrow> distinct es')"
proof (induction ps arbitrary: es ps' es')
  case Nil
  then show ?case by simp
next
  case (Cons p ps)
  obtain qs fs where rec: "bind_pods m ps (set_add (env (set_pod_env m p)) es) = (qs, fs)"
    by (cases "bind_pods m ps (set_add (env (set_pod_env m p)) es)")
  with Cons.prems have ps': "ps' = set_pod_env m p # qs" and es': "es' = fs"
    by (simp_all add: Let_def)
  from Cons.IH [OF rec] have qs: "qs = map (set_pod_env m) ps"
    and fs: "set fs = set (set_add (env (set_pod_env m p)) es) \<union> env ` set qs"
    and d: "distinct (set_add (env (set_pod_env m p)) es) \<longrightarrow> distinct fs"
    by simp_all
  show ?case
    using ps' es' qs fs d by (auto simp: set_set_add distinct_set_add)
qed

lemma popen_detached_trace:
  "\<exists>tl. trace (popen_detached args w) = trace w @ tl \<and> created tl = []"
  by (simp add: popen_detached_def)

lemma call_conda_create_trace:
  "call_conda_create m e w = (err, w1) \<Longrightarrow> \<exists>tl. trace w1 = trace w @ tl \<and> created tl = []"
  using popen_detached_trace
  by (auto simp: call_conda_create_def Let_def split: option.splits if_splits)

lemma create_environment_trace:
  assumes "create_environment m e w = (err, w1)"
  shows "\<exists>tl. trace w1 = trace w @ CreateEnvironment e # tl \<and> created tl = []"
proof (cases "kind m")
  case NoneEnvironmentManager
  with assms show ?thesis by (auto simp: create_environment_def Let_def)
next
  case CondaEnvironmentManager
  let ?w0 = "w\<lparr> trace := trace w @ [CreateEnvironment e] \<rparr>"
  let ?cmd = "''conda env list | grep -qF '' @ dquote @ os_path_join (conda_env_root m) [e] @ dquote"
  let ?w1 = "?w0\<lparr> trace := trace ?w0 @ [ShellCall ?cmd] \<rparr>"
  show ?thesis
  proof (cases "call_status ?w0 ?cmd \<noteq> 0")
    case True
    with assms CondaEnvironmentManager have "call_conda_create m e ?w1 = (err, w1)"
      by (simp add: create_environment_def Let_def)
    from call_conda_create_trace [OF this] obtain tl where "trace w1 = trace ?w1 @ tl" "created tl = []"
      by blast
    then have "trace w1 = trace w @ CreateEnvironment e # (ShellCall ?cmd # tl) \<and> created (ShellCall ?cmd # tl) = []"
      by simp
    then show ?thesis by blast
  next
    case False
    with assms CondaEnvironmentManager have "w1 = ?w1"
      by (simp add: create_environment_def Let_def)
    then have "trace w1 = trace w @ CreateEnvironment e # [ShellCall ?cmd] \<and> created [ShellCall ?cmd] = []"
      by simp
    then show ?thesis by blast
  qed
qed

lemma create_environments_trace:
  "create_environments m es w = (err, w1) \<Longrightarrow>
   \<exists>new. trace w1 = trace w @ new
     \<and> (\<exists>k \<le> length es. created new = take k es)
     \<and> (err = None \<longrightarrow> created new = es)"
proof (induction es arbitrary: w)
  case Nil
  then show ?case by simp
next
  case (Cons e es)
  obtain err0 w0 where step: "create_environment m e w = (err0, w0)"
    by (cases "create_environment m e w")
  from create_environment_trace [OF step] obtain tl
    where tl: "trace w0 = trace w @ CreateEnvironment e # tl" "created tl = []"
    by blast
  show ?case
  proof (cases err0)
    case (Some x)
    with step Cons.prems have "w1 = w0" "err = Some x" by simp_all
    with tl have "trace w1 = trace w @ (CreateEnvironment e # tl)"
      and "created (CreateEnvironment e # tl) = take 1 (e # es)"
      and "err \<noteq> None"
      by simp_all
    moreover have "(1::nat) \<le> length (e # es)" by simp
    ultimately show ?thesis by blast
  next
    case None
    with step Cons.prems have rest: "create_environments m es w0 = (err, w1)" by simp
    from Cons.IH [OF rest] obtain new k
      where new: "trace w1 = trace w0 @ new" "k \<le> length es" "created new = take k es"
        "err = None \<longrightarrow> created new = es"
      by blast
    have "trace w1 = trace w @ (CreateEnvironment e # tl @ new)" using tl new by simp
    moreover have "created (CreateEnvironment e # tl @ new) = take (Suc k) (e # es)"
      using tl new by (simp add: created_append)
    moreover have "Suc k \<le> length (e # es)" using new by simp
    moreover have "err = None \<longrightarrow> created (CreateEnvironment e # tl @ new) = e # es"
      using tl new by (simp add: created_append)
    ultimately show ?thesis by blast
  qed
qed

lemma count_list_distinct:
  "distinct xs \<Longrightarrow> count_list xs x = (if x \<in> set xs then 1 else 0)"
  by (induction xs) auto

lemma count_list_take_distinct: "distinct xs \<Longrightarrow> count_list (take k xs) x \<le> 1"
  using count_list_distinct [of "take k xs" x] by simp

lemma distinct_singleton_set:
  assumes "distinct xs" and "set xs = {x}"
  shows "xs = [x]"
proof (cases xs)
  case Nil
  with assms show ?thesis by simp
next
  case (Cons y ys)
  with assms have y: "y = x" and sub: "set ys \<subseteq> {x}" and notin: "x \<notin> set ys" by auto
  from sub notin have "set ys = {}" by (cases ys) auto
  with Cons y show ?thesis by simp
qed

text \<open>
  Claim C3.  \<^verbatim>\<open>setUp\<close> binds every job to an environment name and collects the
  names in a set; then it enters \<^verbatim>\<open>create_environment\<close> for the names of the set.
  In the trace of one \<^verbatim>\<open>setUp\<close> no name is created twice, and when \<^verbatim>\<open>setUp\<close>
  returns, the names created are exactly the names of the set, once each: the names
  the manager held before and the names of the jobs.  When the jobs of a fresh manager
  all have the same name, \<^verbatim>\<open>create_environment\<close> is entered once, for that name.
\<close>

theorem environment_created_once:
  assumes "distinct (envs m)" and "setUp m w = (err, m', w')"
  shows "\<exists>new. trace w' = trace w @ new
    \<and> pods m' = map (set_pod_env m) (pods m)
    \<and> set (envs m') = set (envs m) \<union> env ` set (pods m')
    \<and> distinct (envs m')
    \<and> (\<forall>e. count_list (created new) e \<le> 1)
    \<and> (err = None \<longrightarrow>
         created new = envs m'
         \<and> (\<forall>e. count_list (created new) e = (if e \<in> set (envs m') then 1 else 0))
         \<and> (\<forall>e. envs m = [] \<and> pods m \<noteq> [] \<and> (\<forall>p \<in> set (pods m'). env p = e) \<longrightarrow>
               created new = [e]))"
proof -
  obtain ps es where b: "bind_pods m (pods m) (envs m) = (ps, es)"
    by (cases "bind_pods m (pods m) (envs m)")
  from bind_pods_props [OF b] assms(1)
  have ps: "ps = map (set_pod_env m) (pods m)"
    and es: "set es = set (envs m) \<union> env ` set ps" and d: "distinct es"
    by simp_all
  let ?m1 = "m\<lparr> pods := ps, envs := es \<rparr>"
  from assms(2) b have m': "m' = ?m1" and c: "create_environments ?m1 es w = (err, w')"
    by (auto simp: setUp_def Let_def split: prod.splits)
  from create_environments_trace [OF c] obtain new k
    where new: "trace w' = trace w @ new" "k \<le> length es" "created new = take k es"
      "err = None \<longrightarrow> created new = es"
    by blast
  have once: "\<forall>e. count_list (created new) e \<le> 1"
    using new(3) count_list_take_distinct [OF d, of k] by simp
  have same: "\<forall>e. envs m = [] \<and> pods m \<noteq> [] \<and> (\<forall>p \<in> set ps. env p = e) \<longrightarrow> es = [e]"
  proof (intro allI impI)
    fix e assume a: "envs m = [] \<and> pods m \<noteq> [] \<and> (\<forall>p \<in> set ps. env p = e)"
    with ps have "ps \<noteq> []" by simp
    with a es have "set es = {e}" by (cases ps) auto
    with d show "es = [e]" by (rule distinct_singleton_set)
  qed
  have succ: "err = None \<longrightarrow>
         created new = es
         \<and> (\<forall>e. count_list (created new) e = (if e \<in> set es then 1 else 0))
         \<and> (\<forall>e. envs m = [] \<and> pods m \<noteq> [] \<and> (\<forall>p \<in> set ps. env p = e) \<longrightarrow>
               created new = [e])"
    using new(4) same d by (simp add: count_list_distinct)
  have pm: "pods m' = ps" "envs m' = es" using m' by simp_all
  have "trace w' = trace w @ new
    \<and> ps = map (set_pod_env m) (pods m)
    \<and> set es = set (envs m) \<union> env ` set ps
    \<and> distinct es
    \<and> (\<forall>e. count_list (created new) e \<le> 1)
    \<and> (err = None \<longrightarrow>
         created new = es
         \<and> (\<forall>e. count_list (created new) e = (if e \<in> set es then 1 else 0))
         \<and> (\<forall>e. envs m = [] \<and> pods m \<noteq> [] \<and> (\<forall>p \<in> set ps. env p = e) \<longrightarrow>
               created new = [e]))"
    using new(1) ps es d once succ by (intro conjI) assumption+
  then show ?thesis unfolding pm by (rule exI)
qed

theorem environment_created_once_witness:
  "distinct (envs (test_manager CondaEnvironmentManager three_pods))
   \<and> fst (setUp (test_manager CondaEnvironmentManager three_pods) (test_world [])) = None
   \<and> map env (pods (fst (snd (setUp (test_manager CondaEnvironmentManager three_pods) (test_world [])))))
       = [''_MDTF-diagnostics-python'', ''_MDTF-diagnostics-python'', ''_MDTF-diagnostics-NCL'']
   \<and> created (trace (snd (snd (setUp (test_manager CondaEnvironmentManager three_pods) (test_world [])))))
       = [''_MDTF-diagnostics-python'', ''_MDTF-diagnostics-NCL'']"
proof -
  let ?M = "test_manager CondaEnvironmentManager three_pods"
  let ?W = "test_world []"
  have d: "distinct (envs ?M)" by (simp add: test_manager_def)
  obtain err m' w' where s: "setUp ?M ?W = (err, m', w')"
    by (cases "setUp ?M ?W")
  have "fst (setUp ?M ?W) = None" by code_simp
  with s have err: "err = None" by simp
  have "envs (fst (snd (setUp ?M ?W))) = [''_MDTF-diagnostics-python'', ''_MDTF-diagnostics-NCL'']"
    by code_simp
  with s have es: "envs m' = [''_MDTF-diagnostics-python'', ''_MDTF-diagnostics-NCL'']" by simp
  have "map env (pods (fst (snd (setUp ?M ?W))))
       = [''_MDTF-diagnostics-python'', ''_MDTF-diagnostics-python'', ''_MDTF-diagnostics-NCL'']"
    by code_simp
  with s have ps: "map env (pods m')
       = [''_MDTF-diagnostics-python'', ''_MDTF-diagnostics-python'', ''_MDTF-diagnostics-NCL'']"
    by simp
  have t: "trace ?W = []" by (simp add: test_world_def)
  from environment_created_once [OF d s] err obtain new
    where "trace w' = trace ?W @ new" and "created new = envs m'"
    by blast
  with t es have "created (trace w') = [''_MDTF-diagnostics-python'', ''_MDTF-diagnostics-NCL'']"
    by simp
  with d err ps s show ?thesis by simp
qed

section \<open>The effects of run\<close>

lemmas trace_defs = fds_opened_def fds_closed_def pids_spawned_def pids_waited_def
  spawn_attempts_def finalized_def

lemma MakeDirs_only:
  "list_all is_MakeDirs tr \<Longrightarrow>
     fds_opened tr = [] \<and> fds_closed tr = [] \<and> pids_spawned tr = [] \<and> pids_waited tr = []
     \<and> spawn_attempts tr = [] \<and> finalized tr = []"
proof (induction tr)
  case Nil
  show ?case by (simp add: trace_defs)
next
  case (Cons ev tr)
  then show ?case by (cases ev) (simp_all add: trace_defs)
qed

subsection \<open>What Diagnostic.setUp leaves alone\<close>

lemma setenv_frame [simp]:
  "open_files (setenv k v w) = open_files w"
  "children (setenv k v w) = children w"
  "next_handle (setenv k v w) = next_handle w"
  "trace (setenv k v w) = trace w"
  "popen_raises (setenv k v w) = popen_raises w"
  "open_raises (setenv k v w) = open_raises w"
  "path_exists (setenv k v w) = path_exists w"
  "isfile (setenv k v w) = isfile w"
  "PathManager (setenv k v w) = PathManager w"
  by (simp_all add: setenv_def)

lemma setenv_items_frame [simp]:
  "open_files (setenv_items kvs w) = open_files w"
  "children (setenv_items kvs w) = children w"
  "next_handle (setenv_items kvs w) = next_handle w"
  "trace (setenv_items kvs w) = trace w"
  "popen_raises (setenv_items kvs w) = popen_raises w"
  "open_raises (setenv_items kvs w) = open_raises w"
  "path_exists (setenv_items kvs w) = path_exists w"
  "isfile (setenv_items kvs w) = isfile w"
  "PathManager (setenv_items kvs w) = PathManager w"
  by (induction kvs w rule: setenv_items.induct; simp)+

lemma set_pod_env_vars_frame:
  "set_pod_env_vars p w = (err, w1) \<Longrightarrow>
     open_files w1 = open_files w \<and> children w1 = children w \<and> next_handle w1 = next_handle w
     \<and> trace w1 = trace w \<and> popen_raises w1 = popen_raises w \<and> open_raises w1 = open_raises w
     \<and> PathManager w1 = PathManager w \<and> isfile w1 = isfile w"
  by (auto simp: set_pod_env_vars_def Let_def split: option.splits)

lemma makedirs_frame [simp]:
  "open_files (makedirs d w) = open_files w"
  "children (makedirs d w) = children w"
  "next_handle (makedirs d w) = next_handle w"
  "trace (makedirs d w) = trace w @ [MakeDirs d]"
  "popen_raises (makedirs d w) = popen_raises w"
  "open_raises (makedirs d w) = open_raises w"
  "isfile (makedirs d w) = isfile w"
  "environ (makedirs d w) = environ w"
  "PathManager (makedirs d w) = PathManager w"
  by (simp_all add: makedirs_def)

lemma check_required_dirs_loop_frame:
  "check_required_dirs_loop ds cin w = (err, w1) \<Longrightarrow>
     open_files w1 = open_files w \<and> children w1 = children w \<and> next_handle w1 = next_handle w
     \<and> popen_raises w1 = popen_raises w \<and> open_raises w1 = open_raises w
     \<and> PathManager w1 = PathManager w \<and> isfile w1 = isfile w \<and> environ w1 = environ w
     \<and> (\<exists>new. trace w1 = trace w @ new \<and> list_all is_MakeDirs new)"
proof (induction ds cin w rule: check_required_dirs_loop.induct)
  case (1 cin w)
  then show ?case by simp
next
  case (2 dir_in rest cin w)
  let ?dir = "case environ w dir_in of Some v \<Rightarrow> v | None \<Rightarrow> dir_in"
  show ?case
  proof (cases "path_exists w ?dir")
    case True
    with 2 show ?thesis by (simp add: Let_def)
  next
    case False
    show ?thesis
    proof (cases "dir_in \<in> set cin")
      case True
      with False 2 have "check_required_dirs_loop rest cin (makedirs ?dir w) = (err, w1)"
        by (simp add: Let_def)
      from "2.IH"(1) [OF refl False _ this] True
      have "open_files w1 = open_files w \<and> children w1 = children w \<and> next_handle w1 = next_handle w
         \<and> popen_raises w1 = popen_raises w \<and> open_raises w1 = open_raises w
         \<and> PathManager w1 = PathManager w \<and> isfile w1 = isfile w \<and> environ w1 = environ w
         \<and> (\<exists>new. trace w1 = trace w @ [MakeDirs ?dir] @ new \<and> list_all is_MakeDirs new)"
        by auto
      then obtain new where "trace w1 = trace w @ (MakeDirs ?dir # new)" "list_all is_MakeDirs (MakeDirs ?dir # new)"
        by auto
      with \<open>open_files w1 = open_files w \<and> _\<close> show ?thesis by blast
    next
      case notin: False
      with False 2 show ?thesis by (simp add: Let_def)
    qed
  qed
qed

lemma make_missing_dirs_frame [simp]:
  "open_files (make_missing_dirs wk ds w) = open_files w"
  "children (make_missing_dirs wk ds w) = children w"
  "next_handle (make_missing_dirs wk ds w) = next_handle w"
  "popen_raises (make_missing_dirs wk ds w) = popen_raises w"
  "open_raises (make_missing_dirs wk ds w) = open_raises w"
  "PathManager (make_missing_dirs wk ds w) = PathManager w"
  "isfile (make_missing_dirs wk ds w) = isfile w"
  "environ (make_missing_dirs wk ds w) = environ w"
  by (induction ds arbitrary: w; simp)+

lemma make_missing_dirs_trace:
  "\<exists>new. trace (make_missing_dirs wk ds w) = trace w @ new \<and> list_all is_MakeDirs new"
proof (induction ds arbitrary: w)
  case Nil
  show ?case by simp
next
  case (Cons d ds)
  show ?case
  proof (cases "path_exists w (os_path_join wk [d])")
    case True
    with Cons [of w] show ?thesis by simp
  next
    case False
    let ?w = "makedirs (os_path_join wk [d]) w"
    from Cons [of ?w] obtain new
      where tr: "trace (make_missing_dirs wk ds ?w) = trace ?w @ new" "list_all is_MakeDirs new"
      by blast
    have step: "make_missing_dirs wk (d # ds) w = make_missing_dirs wk ds ?w"
      using False by simp
    have "trace (make_missing_dirs wk (d # ds) w) = trace w @ (MakeDirs (os_path_join wk [d]) # new)"
      using step tr by simp
    moreover have "list_all is_MakeDirs (MakeDirs (os_path_join wk [d]) # new)"
      using tr by simp
    ultimately show ?thesis by blast
  qed
qed


declare make_missing_dirs.simps [simp del]

lemma setup_pod_directories_frame:
  assumes "setup_pod_directories p w = (err, w1)"
  shows "open_files w1 = open_files w \<and> children w1 = children w \<and> next_handle w1 = next_handle w
     \<and> popen_raises w1 = popen_raises w \<and> open_raises w1 = open_raises w
     \<and> PathManager w1 = PathManager w \<and> isfile w1 = isfile w \<and> environ w1 = environ w
     \<and> (\<exists>new. trace w1 = trace w @ new \<and> list_all is_MakeDirs new)"
proof (cases "POD_WK_DIR p")
  case None
  with assms show ?thesis by (simp add: setup_pod_directories_def)
next
  case (Some wk)
  note wk = this
  obtain e0 w0 where c: "check_required_dirs [POD_CODE_DIR p, POD_OBS_DATA p] [wk] w = (e0, w0)"
    by (cases "check_required_dirs [POD_CODE_DIR p, POD_OBS_DATA p] [wk] w")
  note f0 = check_required_dirs_loop_frame [OF c [unfolded check_required_dirs_def]]
  from f0 obtain new0 where tr0: "trace w0 = trace w @ new0" "list_all is_MakeDirs new0"
    by (elim conjE exE)
  show ?thesis
  proof (cases e0)
    case (Some e)
    with assms wk c have "w1 = w0" by (simp add: setup_pod_directories_def)
    with f0 show ?thesis by simp
  next
    case None
    let ?ds = "['''', ''model'', ''model/PS'', ''model/netCDF'', ''obs'', ''obs/PS'', ''obs/netCDF'']"
    from None assms wk c have w1: "w1 = make_missing_dirs wk ?ds w0"
      by (simp add: setup_pod_directories_def)
    from make_missing_dirs_trace [of wk ?ds w0] obtain new1
      where tr1: "trace (make_missing_dirs wk ?ds w0) = trace w0 @ new1" "list_all is_MakeDirs new1"
      by (elim conjE exE)
    have "trace w1 = trace w @ (new0 @ new1)" using w1 tr0 tr1 by simp
    moreover have "list_all is_MakeDirs (new0 @ new1)" using tr0 tr1 by simp
    ultimately have "\<exists>new. trace w1 = trace w @ new \<and> list_all is_MakeDirs new"
      by (intro exI conjI)
    moreover have "open_files w1 = open_files w \<and> children w1 = children w \<and> next_handle w1 = next_handle w
     \<and> popen_raises w1 = popen_raises w \<and> open_raises w1 = open_raises w
     \<and> PathManager w1 = PathManager w \<and> isfile w1 = isfile w \<and> environ w1 = environ w"
      using f0 unfolding w1 by simp
    ultimately show ?thesis by simp
  qed
qed

lemma check_pod_driver_frame:
  "check_pod_driver p w = (err, p1) \<Longrightarrow>
     process_obj p1 = process_obj p \<and> logfile_obj p1 = logfile_obj p \<and> name p1 = name p
     \<and> POD_WK_DIR p1 = POD_WK_DIR p \<and> varlist p1 = varlist p \<and> env p1 = env p"
  by (auto simp: check_pod_driver_def Let_def split: if_splits option.splits)

lemma Diagnostic_setUp_frame:
  assumes "Diagnostic_setUp p w = (err, p1, w1)"
  shows "process_obj p1 = process_obj p \<and> logfile_obj p1 = logfile_obj p \<and> name p1 = name p
     \<and> POD_WK_DIR p1 = POD_WK_DIR p
     \<and> open_files w1 = open_files w \<and> children w1 = children w \<and> next_handle w1 = next_handle w
     \<and> popen_raises w1 = popen_raises w \<and> open_raises w1 = open_raises w
     \<and> PathManager w1 = PathManager w \<and> isfile w1 = isfile w
     \<and> (\<exists>new. trace w1 = trace w @ new \<and> list_all is_MakeDirs new)"
proof -
  obtain e1 wa where a: "set_pod_env_vars p w = (e1, wa)" by (cases "set_pod_env_vars p w")
  note fa = set_pod_env_vars_frame [OF a]
  show ?thesis
  proof (cases e1)
    case (Some e)
    with assms a have "p1 = p" "w1 = wa" by (simp_all add: Diagnostic_setUp_def)
    with fa show ?thesis by simp
  next
    case None
    note e1 = this
    obtain e2 wb where b: "setup_pod_directories p wa = (e2, wb)"
      by (cases "setup_pod_directories p wa")
    note fb = setup_pod_directories_frame [OF b]
    from fa fb have world: "open_files wb = open_files w \<and> children wb = children w
        \<and> next_handle wb = next_handle w
        \<and> popen_raises wb = popen_raises w \<and> open_raises wb = open_raises w
        \<and> PathManager wb = PathManager w \<and> isfile wb = isfile w
        \<and> (\<exists>new. trace wb = trace w @ new \<and> list_all is_MakeDirs new)"
      by simp
    show ?thesis
    proof (cases e2)
      case (Some e)
      with assms a b e1 have "p1 = p" "w1 = wb" by (simp_all add: Diagnostic_setUp_def)
      with world show ?thesis by simp
    next
      case None
      note e2 = this
      obtain e3 pc where c: "check_pod_driver p wb = (e3, pc)" by (cases "check_pod_driver p wb")
      note fc = check_pod_driver_frame [OF c]
      from assms a b c e1 e2 have "w1 = wb"
        by (auto simp: Diagnostic_setUp_def split: option.splits sum.splits)
      moreover from assms a b c e1 e2
      have "process_obj p1 = process_obj pc \<and> logfile_obj p1 = logfile_obj pc \<and> name p1 = name pc
         \<and> POD_WK_DIR p1 = POD_WK_DIR pc"
        by (auto simp: Diagnostic_setUp_def split: option.splits sum.splits)
      ultimately show ?thesis using fc world by simp
    qed
  qed
qed

subsection \<open>The loops of run\<close>

lemma trace_append:
  "fds_opened (a @ b) = fds_opened a @ fds_opened b"
  "fds_closed (a @ b) = fds_closed a @ fds_closed b"
  "pids_spawned (a @ b) = pids_spawned a @ pids_spawned b"
  "pids_waited (a @ b) = pids_waited a @ pids_waited b"
  "spawn_attempts (a @ b) = spawn_attempts a @ spawn_attempts b"
  "finalized (a @ b) = finalized a @ finalized b"
  by (simp_all add: trace_defs)

lemma handles_append:
  "log_handles (ps @ qs) = log_handles ps @ log_handles qs"
  "proc_handles (ps @ qs) = proc_handles ps @ proc_handles qs"
  "log_handles (p # qs) = log_handles [p] @ log_handles qs"
  "proc_handles (p # qs) = proc_handles [p] @ proc_handles qs"
  by (simp_all add: log_handles_def proc_handles_def)

lemma no_handles:
  "process_obj p = None \<Longrightarrow> proc_handles [p] = []"
  "logfile_obj p = None \<Longrightarrow> log_handles [p] = []"
  by (simp_all add: log_handles_def proc_handles_def)

text \<open>The four ways in which the body of the first loop ends without an exception or with one.\<close>

lemma run_pod_cases:
  assumes s: "Diagnostic_setUp p w = (e, p1, w1)"
  shows "run_pod m p w =
    (case e of
       Some x \<Rightarrow> (Some x, p1, w1)
     | None \<Rightarrow>
         if missing_files p1 \<noteq> [] then (None, p1, w1)
         else
           (case POD_WK_DIR p1 of
              None \<Rightarrow> (Some (AttributeError ''POD_WK_DIR''), p1, w1)
            | Some wk_dir \<Rightarrow>
                if open_raises w1 (os_path_join wk_dir [name p1 @ ''.log''])
                then (Some (IOError (os_path_join wk_dir [name p1 @ ''.log''])), p1, w1)
                else
                  (let fd = next_handle w1;
                       ev = OpenFile (os_path_join wk_dir [name p1 @ ''.log'']) fd;
                       w2 = w1\<lparr> next_handle := Suc fd, open_files := open_files w1 @ [fd],
                                trace := trace w1 @ [ev] \<rparr>;
                       p2 = p1\<lparr> logfile_obj := Some fd \<rparr>;
                       args = [''bash'', ''-c'', and_chain (command_fragments w2 m p2)]
                   in if popen_raises w1 args
                      then (None, p2, w2\<lparr> trace := trace w1 @ [ev, SpawnFailed args] \<rparr>)
                      else (None, p2\<lparr> process_obj := Some (Suc fd) \<rparr>,
                            w2\<lparr> next_handle := Suc (Suc fd),
                                children := children w1 @ [Suc fd],
                                trace := trace w1 @ [ev, Spawn args (Some wk_dir) (Suc fd)] \<rparr>))))"
  using s by (simp add: run_pod_def Let_def split: option.split)

lemma run_pod_effect:
  assumes r: "run_pod m p w = (err, p', w')"
    and h: "process_obj p = None" "logfile_obj p = None"
  shows "\<exists>new. trace w' = trace w @ new
    \<and> fds_opened new = log_handles [p'] \<and> pids_spawned new = proc_handles [p']
    \<and> fds_closed new = [] \<and> pids_waited new = [] \<and> finalized new = []
    \<and> open_files w' = open_files w @ log_handles [p']
    \<and> children w' = children w @ proc_handles [p']
    \<and> next_handle w \<le> next_handle w'
    \<and> (\<forall>x \<in> set (log_handles [p'] @ proc_handles [p']). next_handle w \<le> x \<and> x < next_handle w')
    \<and> distinct (log_handles [p'] @ proc_handles [p'])
    \<and> name p' = name p
    \<and> (err = None \<longrightarrow>
          length (fds_opened new) = (if missing_files p' = [] then 1 else 0)
          \<and> length (spawn_attempts new) = (if missing_files p' = [] then 1 else 0))"
proof -
  obtain e p1 w1 where s: "Diagnostic_setUp p w = (e, p1, w1)"
    by (cases "Diagnostic_setUp p w") auto
  note f = Diagnostic_setUp_frame [OF s]
  from f obtain new0 where new0: "trace w1 = trace w @ new0" "list_all is_MakeDirs new0"
    by (elim conjE exE)
  note m0 = MakeDirs_only [OF new0(2)]
  from f h have h1: "process_obj p1 = None" "logfile_obj p1 = None" by simp_all
  note c = run_pod_cases [OF s, of m]
  have stop: ?thesis if "p' = p1" "w' = w1" "err = None \<longrightarrow> missing_files p1 \<noteq> []"
  proof -
    have "trace w' = trace w @ new0" using that new0 by simp
    moreover have "log_handles [p'] = []" "proc_handles [p'] = []"
      using that h1 by (simp_all add: no_handles)
    ultimately show ?thesis using that f m0 by (intro exI [of _ new0]) simp
  qed
  show ?thesis
  proof (cases e)
    case (Some x)
    with c r have "p' = p1" "w' = w1" "err \<noteq> None" by simp_all
    then show ?thesis by (intro stop) auto
  next
    case None
    note e = this
    show ?thesis
    proof (cases "missing_files p1 \<noteq> []")
      case True
      with c r e have "p' = p1" "w' = w1" by simp_all
      with True show ?thesis by (intro stop) auto
    next
      case False
      note runnable = this
      show ?thesis
      proof (cases "POD_WK_DIR p1")
        case None
        with c r e runnable have "p' = p1" "w' = w1" "err \<noteq> None" by simp_all
        then show ?thesis by (intro stop) auto
      next
        case (Some wk)
        note wk = this
        let ?lp = "os_path_join wk [name p1 @ ''.log'']"
        show ?thesis
        proof (cases "open_raises w1 ?lp")
          case True
          with c r e runnable wk have "p' = p1" "w' = w1" "err \<noteq> None" by simp_all
          then show ?thesis by (intro stop) auto
        next
          case False
          note opened = this
          let ?fd = "next_handle w1"
          let ?ev = "OpenFile ?lp ?fd"
          let ?w2 = "w1\<lparr> next_handle := Suc ?fd, open_files := open_files w1 @ [?fd],
                                trace := trace w1 @ [?ev] \<rparr>"
          let ?p2 = "p1\<lparr> logfile_obj := Some ?fd \<rparr>"
          let ?args = "[''bash'', ''-c'', and_chain (command_fragments ?w2 m ?p2)]"
          show ?thesis
          proof (cases "popen_raises w1 ?args")
            case True
            with c r e runnable wk opened
            have p': "p' = ?p2" and w': "w' = ?w2\<lparr> trace := trace w1 @ [?ev, SpawnFailed ?args] \<rparr>"
              and err: "err = None"
              by (simp_all add: Let_def)
            let ?new = "new0 @ [?ev, SpawnFailed ?args]"
            have lh: "log_handles [p'] = [?fd]" "proc_handles [p'] = []"
              using p' h1 by (simp_all add: log_handles_def proc_handles_def)
            have tr: "trace w' = trace w @ ?new" using w' new0 by simp
            have pr: "fds_opened ?new = [?fd]" "pids_spawned ?new = []" "fds_closed ?new = []"
              "pids_waited ?new = []" "finalized ?new = []" "length (spawn_attempts ?new) = 1"
              using m0 by (simp_all add: trace_append) (simp_all add: trace_defs)
            have fr: "open_files w' = open_files w @ [?fd]" "children w' = children w"
              "next_handle w' = Suc (next_handle w)" "next_handle w1 = next_handle w"
              "name p' = name p" "missing_files p' = []"
              using w' p' f runnable by simp_all
            show ?thesis
              using tr pr fr lh err by (intro exI [of _ ?new]) simp
          next
            case False
            with c r e runnable wk opened
            have p': "p' = ?p2\<lparr> process_obj := Some (Suc ?fd) \<rparr>"
              and w': "w' = ?w2\<lparr> next_handle := Suc (Suc ?fd), children := children w1 @ [Suc ?fd],
                         trace := trace w1 @ [?ev, Spawn ?args (Some wk) (Suc ?fd)] \<rparr>"
              and err: "err = None"
              by (simp_all add: Let_def)
            let ?new = "new0 @ [?ev, Spawn ?args (Some wk) (Suc ?fd)]"
            have lh: "log_handles [p'] = [?fd]" "proc_handles [p'] = [Suc ?fd]"
              using p' by (simp_all add: log_handles_def proc_handles_def)
            have tr: "trace w' = trace w @ ?new" using w' new0 by simp
            have pr: "fds_opened ?new = [?fd]" "pids_spawned ?new = [Suc ?fd]" "fds_closed ?new = []"
              "pids_waited ?new = []" "finalized ?new = []" "length (spawn_attempts ?new) = 1"
              using m0 by (simp_all add: trace_append) (simp_all add: trace_defs)
            have fr: "open_files w' = open_files w @ [?fd]" "children w' = children w @ [Suc ?fd]"
              "next_handle w' = Suc (Suc (next_handle w))" "next_handle w1 = next_handle w"
              "name p' = name p" "missing_files p' = []"
              using w' p' f runnable by simp_all
            show ?thesis
              using tr pr fr lh err by (intro exI [of _ ?new]) simp
          qed
        qed
      qed
    qed
  qed
qed

lemma no_handles_list:
  "\<forall>p \<in> set ps. process_obj p = None \<and> logfile_obj p = None \<Longrightarrow>
     log_handles ps = [] \<and> proc_handles ps = []"
  by (induction ps) (simp_all add: log_handles_def proc_handles_def)

lemma trace_Nil:
  "fds_opened [] = []" "fds_closed [] = []" "pids_spawned [] = []" "pids_waited [] = []"
  "spawn_attempts [] = []" "finalized [] = []"
  by (simp_all add: trace_defs)

lemma trace_Cons:
  "fds_opened (ev # tr) = (case ev of OpenFile path fd \<Rightarrow> [fd] | _ \<Rightarrow> []) @ fds_opened tr"
  "fds_closed (ev # tr) = (case ev of CloseFile fd \<Rightarrow> [fd] | _ \<Rightarrow> []) @ fds_closed tr"
  "pids_spawned (ev # tr) = (case ev of Spawn args cwd pid \<Rightarrow> [pid] | _ \<Rightarrow> []) @ pids_spawned tr"
  "pids_waited (ev # tr) = (case ev of WaitProc pid \<Rightarrow> [pid] | _ \<Rightarrow> []) @ pids_waited tr"
  "spawn_attempts (ev # tr) =
     (case ev of Spawn args cwd pid \<Rightarrow> [args] | SpawnFailed args \<Rightarrow> [args] | _ \<Rightarrow> [])
     @ spawn_attempts tr"
  "finalized (ev # tr) = (case ev of PodTearDown n \<Rightarrow> [n] | _ \<Rightarrow> []) @ finalized tr"
  by (simp_all add: trace_defs)

lemma filter_neq_commute: "filter ((\<noteq>) a) xs = filter (\<lambda>x. x \<noteq> a) xs"
  by (rule filter_cong) auto

lemma wait_pod_effect:
  assumes "wait_pod p w = (p', w')"
  shows "process_obj p' = None \<and> logfile_obj p' = None \<and> name p' = name p
    \<and> missing_files p' = missing_files p
    \<and> (\<exists>new. trace w' = trace w @ new
          \<and> fds_closed new = log_handles [p] \<and> pids_waited new = proc_handles [p]
          \<and> fds_opened new = [] \<and> pids_spawned new = [] \<and> spawn_attempts new = []
          \<and> finalized new = [])
    \<and> open_files w' = filter (\<lambda>x. x \<notin> set (log_handles [p])) (open_files w)
    \<and> children w' = filter (\<lambda>x. x \<notin> set (proc_handles [p])) (children w)
    \<and> next_handle w' = next_handle w"
proof -
  define new where "new = (case process_obj p of Some pid \<Rightarrow> [WaitProc pid] | None \<Rightarrow> [])
      @ (case logfile_obj p of Some fd \<Rightarrow> [CloseFile fd] | None \<Rightarrow> [])"
  have tr: "trace w' = trace w @ new"
    using assms unfolding new_def
    by (cases "process_obj p"; cases "logfile_obj p"; auto simp: wait_pod_def)
  have pr: "fds_closed new = log_handles [p]" "pids_waited new = proc_handles [p]"
    "fds_opened new = []" "pids_spawned new = []" "spawn_attempts new = []" "finalized new = []"
    unfolding new_def
    by (cases "process_obj p"; cases "logfile_obj p";
        simp add: trace_Cons trace_Nil log_handles_def proc_handles_def)+
  have ex: "\<exists>new. trace w' = trace w @ new
          \<and> fds_closed new = log_handles [p] \<and> pids_waited new = proc_handles [p]
          \<and> fds_opened new = [] \<and> pids_spawned new = [] \<and> spawn_attempts new = []
          \<and> finalized new = []"
    using tr pr by (intro exI [of _ new] conjI)
  have rest: "process_obj p' = None \<and> logfile_obj p' = None \<and> name p' = name p
    \<and> missing_files p' = missing_files p
    \<and> open_files w' = filter (\<lambda>x. x \<notin> set (log_handles [p])) (open_files w)
    \<and> children w' = filter (\<lambda>x. x \<notin> set (proc_handles [p])) (children w)
    \<and> next_handle w' = next_handle w"
    using assms
    by (cases "process_obj p"; cases "logfile_obj p";
        auto simp: wait_pod_def log_handles_def proc_handles_def removeAll_filter_not_eq filter_neq_commute)
  from rest ex show ?thesis by simp
qed

lemma wait_loop_effect:
  "wait_loop ps w = (ps', w') \<Longrightarrow>
     (\<forall>p \<in> set ps'. process_obj p = None \<and> logfile_obj p = None)
     \<and> map name ps' = map name ps \<and> map missing_files ps' = map missing_files ps
     \<and> (\<exists>new. trace w' = trace w @ new
          \<and> fds_closed new = log_handles ps \<and> pids_waited new = proc_handles ps
          \<and> fds_opened new = [] \<and> pids_spawned new = [] \<and> spawn_attempts new = []
          \<and> finalized new = [])
     \<and> open_files w' = filter (\<lambda>x. x \<notin> set (log_handles ps)) (open_files w)
     \<and> children w' = filter (\<lambda>x. x \<notin> set (proc_handles ps)) (children w)
     \<and> next_handle w' = next_handle w"
proof (induction ps arbitrary: w ps' w')
  case Nil
  then have "ps' = []" "w' = w" by simp_all
  then show ?case by (simp add: trace_Nil log_handles_def proc_handles_def)
next
  case (Cons p rest)
  obtain p1 w1 where s: "wait_pod p w = (p1, w1)" by (cases "wait_pod p w")
  with Cons.prems obtain rest' where rec: "wait_loop rest w1 = (rest', w')" and res: "ps' = p1 # rest'"
    by (auto split: prod.splits)
  from wait_pod_effect [OF s] obtain new1 where
    h1: "process_obj p1 = None" "logfile_obj p1 = None" "name p1 = name p"
      "missing_files p1 = missing_files p"
    and t1: "trace w1 = trace w @ new1"
    and o1: "fds_closed new1 = log_handles [p]" "pids_waited new1 = proc_handles [p]"
      "fds_opened new1 = []" "pids_spawned new1 = []" "spawn_attempts new1 = []" "finalized new1 = []"
    and f1: "open_files w1 = filter (\<lambda>x. x \<notin> set (log_handles [p])) (open_files w)"
      "children w1 = filter (\<lambda>x. x \<notin> set (proc_handles [p])) (children w)"
      "next_handle w1 = next_handle w"
    by (elim conjE exE)
  from Cons.IH [OF rec] obtain new2 where
    h2: "\<forall>p \<in> set rest'. process_obj p = None \<and> logfile_obj p = None"
      "map name rest' = map name rest" "map missing_files rest' = map missing_files rest"
    and t2: "trace w' = trace w1 @ new2"
    and o2: "fds_closed new2 = log_handles rest" "pids_waited new2 = proc_handles rest"
      "fds_opened new2 = []" "pids_spawned new2 = []" "spawn_attempts new2 = []" "finalized new2 = []"
    and f2: "open_files w' = filter (\<lambda>x. x \<notin> set (log_handles rest)) (open_files w1)"
      "children w' = filter (\<lambda>x. x \<notin> set (proc_handles rest)) (children w1)"
      "next_handle w' = next_handle w1"
    by (elim conjE exE)
  have tr: "trace w' = trace w @ (new1 @ new2)" using t1 t2 by simp
  have pr: "fds_closed (new1 @ new2) = log_handles (p # rest)"
    "pids_waited (new1 @ new2) = proc_handles (p # rest)"
    "fds_opened (new1 @ new2) = []" "pids_spawned (new1 @ new2) = []"
    "spawn_attempts (new1 @ new2) = []" "finalized (new1 @ new2) = []"
    using o1 o2 by (simp_all add: trace_append handles_append(3) [of p rest] handles_append(4) [of p rest])
  have ex: "\<exists>new. trace w' = trace w @ new
          \<and> fds_closed new = log_handles (p # rest) \<and> pids_waited new = proc_handles (p # rest)
          \<and> fds_opened new = [] \<and> pids_spawned new = [] \<and> spawn_attempts new = []
          \<and> finalized new = []"
    using tr pr by (intro exI [of _ "new1 @ new2"] conjI)
  have fo: "open_files w' = filter (\<lambda>x. x \<notin> set (log_handles (p # rest))) (open_files w)"
    unfolding f2(1) f1(1) handles_append(3) [of p rest] by simp
  have fc: "children w' = filter (\<lambda>x. x \<notin> set (proc_handles (p # rest))) (children w)"
    unfolding f2(2) f1(2) handles_append(4) [of p rest] by simp
  have pods: "(\<forall>p \<in> set ps'. process_obj p = None \<and> logfile_obj p = None)
     \<and> map name ps' = map name (p # rest) \<and> map missing_files ps' = map missing_files (p # rest)
     \<and> next_handle w' = next_handle w"
    using h1 h2 f1(3) f2(3) res by simp
  from pods ex fo fc show ?case by simp
qed

lemma run_loop_effect:
  assumes "run_loop m ps w = (err, ps', w')"
    and "\<forall>p \<in> set ps. process_obj p = None \<and> logfile_obj p = None"
  shows "\<exists>new. trace w' = trace w @ new
    \<and> fds_opened new = log_handles ps' \<and> pids_spawned new = proc_handles ps'
    \<and> fds_closed new = [] \<and> pids_waited new = [] \<and> finalized new = []
    \<and> open_files w' = open_files w @ log_handles ps'
    \<and> children w' = children w @ proc_handles ps'
    \<and> next_handle w \<le> next_handle w'
    \<and> (\<forall>x \<in> set (log_handles ps' @ proc_handles ps'). next_handle w \<le> x)
    \<and> map name ps' = map name ps
    \<and> (err = None \<longrightarrow>
          length (fds_opened new) = length (filter (\<lambda>p. missing_files p = []) ps')
          \<and> length (spawn_attempts new) = length (filter (\<lambda>p. missing_files p = []) ps'))"
  using assms
proof (induction ps arbitrary: w ps' w' err)
  case Nil
  then have "ps' = []" "w' = w" "err = None" by simp_all
  then show ?case
    by (intro exI [of _ "[]"]) (simp add: trace_defs log_handles_def proc_handles_def)
next
  case (Cons p rest)
  obtain e1 p1 w1 where r1: "run_pod m p w = (e1, p1, w1)"
    by (cases "run_pod m p w") auto
  from Cons.prems(2) have hp: "process_obj p = None" "logfile_obj p = None"
    and hrest: "\<forall>p \<in> set rest. process_obj p = None \<and> logfile_obj p = None"
    by simp_all
  from run_pod_effect [OF r1 hp] obtain new1 where
    t1: "trace w1 = trace w @ new1"
    and o1: "fds_opened new1 = log_handles [p1]" "pids_spawned new1 = proc_handles [p1]"
      "fds_closed new1 = []" "pids_waited new1 = []" "finalized new1 = []"
    and f1: "open_files w1 = open_files w @ log_handles [p1]"
      "children w1 = children w @ proc_handles [p1]"
      "next_handle w \<le> next_handle w1"
    and b1: "\<forall>x \<in> set (log_handles [p1] @ proc_handles [p1]). next_handle w \<le> x \<and> x < next_handle w1"
    and n1: "name p1 = name p"
    and c1: "e1 = None \<longrightarrow>
          length (fds_opened new1) = (if missing_files p1 = [] then 1 else 0)
          \<and> length (spawn_attempts new1) = (if missing_files p1 = [] then 1 else 0)"
    by (elim conjE exE)
  show ?case
  proof (cases e1)
    case (Some x)
    with Cons.prems(1) r1 have res: "ps' = p1 # rest" "w' = w1" "err = Some x" by simp_all
    from no_handles_list [OF hrest] have nr: "log_handles rest = []" "proc_handles rest = []"
      by simp_all
    have lh: "log_handles ps' = log_handles [p1]" "proc_handles ps' = proc_handles [p1]"
      using res nr by (simp_all add: handles_append(3) [of p1 rest] handles_append(4) [of p1 rest])
    show ?thesis
      using res t1 o1 f1 b1 n1 lh by (intro exI [of _ new1]) auto
  next
    case None
    with Cons.prems(1) r1 obtain rest' where rec: "run_loop m rest w1 = (err, rest', w')"
      and res: "ps' = p1 # rest'"
      by (auto split: prod.splits)
    from Cons.IH [OF rec hrest] obtain new2 where
      t2: "trace w' = trace w1 @ new2"
      and o2: "fds_opened new2 = log_handles rest'" "pids_spawned new2 = proc_handles rest'"
        "fds_closed new2 = []" "pids_waited new2 = []" "finalized new2 = []"
      and f2: "open_files w' = open_files w1 @ log_handles rest'"
        "children w' = children w1 @ proc_handles rest'"
        "next_handle w1 \<le> next_handle w'"
      and b2: "\<forall>x \<in> set (log_handles rest' @ proc_handles rest'). next_handle w1 \<le> x"
      and n2: "map name rest' = map name rest"
      and c2: "err = None \<longrightarrow>
          length (fds_opened new2) = length (filter (\<lambda>p. missing_files p = []) rest')
          \<and> length (spawn_attempts new2) = length (filter (\<lambda>p. missing_files p = []) rest')"
      by (elim conjE exE)
    have lh: "log_handles ps' = log_handles [p1] @ log_handles rest'"
      "proc_handles ps' = proc_handles [p1] @ proc_handles rest'"
      using res by (simp_all add: handles_append(3) [of p1 rest'] handles_append(4) [of p1 rest'])
    have tr: "trace w' = trace w @ (new1 @ new2)" using t1 t2 by simp
    have pr: "fds_opened (new1 @ new2) = log_handles ps'" "pids_spawned (new1 @ new2) = proc_handles ps'"
      "fds_closed (new1 @ new2) = []" "pids_waited (new1 @ new2) = []" "finalized (new1 @ new2) = []"
      using o1 o2 lh by (simp_all add: trace_append)
    have fr: "open_files w' = open_files w @ log_handles ps'"
      "children w' = children w @ proc_handles ps'" "next_handle w \<le> next_handle w'"
      using f1 f2 lh by simp_all
    have bd: "\<forall>x \<in> set (log_handles ps' @ proc_handles ps'). next_handle w \<le> x"
      using b1 b2 lh by (auto intro: order.trans [OF f1(3)])
    have nm: "map name ps' = map name (p # rest)" using res n1 n2 by simp
    have ct: "err = None \<longrightarrow>
          length (fds_opened (new1 @ new2)) = length (filter (\<lambda>p. missing_files p = []) ps')
          \<and> length (spawn_attempts (new1 @ new2)) = length (filter (\<lambda>p. missing_files p = []) ps')"
      using c1 c2 None res by (simp add: trace_append)
    show ?thesis
      using tr pr fr bd nm ct by (intro exI [of _ "new1 @ new2"]) simp
  qed
qed

lemma filter_fresh:
  fixes xs ys :: "nat list"
  assumes "\<forall>x \<in> set xs. x < n" and "\<forall>x \<in> set ys. n \<le> x"
  shows "filter (\<lambda>x. x \<notin> set ys) (xs @ ys) = xs"
proof -
  have "x \<notin> set ys" if "x \<in> set xs" for x
  proof
    assume "x \<in> set ys"
    with that assms have "x < n" "n \<le> x" by simp_all
    then show False by simp
  qed
  then have "filter (\<lambda>x. x \<notin> set ys) xs = xs"
    by (simp add: filter_id_conv)
  moreover have "filter (\<lambda>x. x \<notin> set ys) ys = []"
    by (simp add: filter_empty_conv)
  ultimately show ?thesis by simp
qed

lemma run_pod_name:
  assumes "run_pod m p w = (err, p', w')"
  shows "name p' = name p"
proof -
  obtain e p1 w1 where s: "Diagnostic_setUp p w = (e, p1, w1)"
    by (cases "Diagnostic_setUp p w") auto
  from Diagnostic_setUp_frame [OF s] have n: "name p1 = name p" by simp
  from assms run_pod_cases [OF s, of m] n show ?thesis
    by (auto simp: Let_def split: option.splits if_splits)
qed

lemma run_loop_names:
  "run_loop m ps w = (err, ps', w') \<Longrightarrow> map name ps' = map name ps"
proof (induction ps arbitrary: w ps' w' err)
  case Nil
  then show ?case by simp
next
  case (Cons p rest)
  obtain e1 p1 w1 where r1: "run_pod m p w = (e1, p1, w1)"
    by (cases "run_pod m p w") auto
  note n1 = run_pod_name [OF r1]
  show ?case
  proof (cases e1)
    case (Some x)
    with Cons.prems r1 have "ps' = p1 # rest" by simp
    with n1 show ?thesis by simp
  next
    case None
    with Cons.prems r1 obtain rest' where rec: "run_loop m rest w1 = (err, rest', w')"
      and res: "ps' = p1 # rest'"
      by (auto split: prod.splits)
    from Cons.IH [OF rec] res n1 show ?thesis by simp
  qed
qed

lemma run_split:
  assumes "run m w = (None, m1, w1)"
  shows "\<exists>ps wa ps'. run_loop m (pods m) w = (None, ps, wa) \<and> wait_loop ps wa = (ps', w1)
           \<and> m1 = m\<lparr> pods := ps' \<rparr>"
proof -
  obtain e ps wa where a: "run_loop m (pods m) w = (e, ps, wa)"
    by (cases "run_loop m (pods m) w") auto
  obtain ps' wb where b: "wait_loop ps wa = (ps', wb)"
    by (cases "wait_loop ps wa")
  from assms a b have "e = None" "w1 = wb" "m1 = m\<lparr> pods := ps' \<rparr>"
    by (auto simp: run_def split: option.splits)
  with a b show ?thesis by simp
qed

subsection \<open>tearDown\<close>

lemma Diagnostic_tearDown_trace:
  assumes "Diagnostic_tearDown p w = (err, w1)"
  shows "trace w1 = trace w @ [PodTearDown (name p)]"
proof -
  let ?w0 = "w\<lparr> trace := trace w @ [PodTearDown (name p)] \<rparr>"
  obtain e wa where a: "set_pod_env_vars p ?w0 = (e, wa)" by (cases "set_pod_env_vars p ?w0")
  from set_pod_env_vars_frame [OF a] have "trace wa = trace ?w0" by simp
  moreover from assms a have "w1 = wa"
    by (auto simp: Diagnostic_tearDown_def Let_def split: option.splits if_splits)
  ultimately show ?thesis by simp
qed

lemma tearDown_pods_trace:
  "tearDown_pods ps w = (err, w') \<Longrightarrow>
     \<exists>fin. trace w' = trace w @ fin
       \<and> (\<exists>k \<le> length ps. finalized fin = take k (map name ps))
       \<and> (err = None \<longrightarrow> finalized fin = map name ps)
       \<and> fds_opened fin = [] \<and> spawn_attempts fin = []"
proof (induction ps arbitrary: w)
  case Nil
  then have "w' = w" by simp
  then show ?case by (intro exI [of _ "[]"]) (simp add: trace_Nil)
next
  case (Cons p rest)
  obtain e1 w1 where s: "Diagnostic_tearDown p w = (e1, w1)" by (cases "Diagnostic_tearDown p w")
  note t1 = Diagnostic_tearDown_trace [OF s]
  show ?case
  proof (cases e1)
    case (Some x)
    with Cons.prems s have "w' = w1" "err = Some x" by simp_all
    with t1 have "trace w' = trace w @ [PodTearDown (name p)]"
      and "finalized [PodTearDown (name p)] = take 1 (map name (p # rest))"
      and "err \<noteq> None"
      and "fds_opened [PodTearDown (name p)] = []" "spawn_attempts [PodTearDown (name p)] = []"
      by (simp_all add: trace_Cons trace_Nil)
    moreover have "(1::nat) \<le> length (p # rest)" by simp
    ultimately show ?thesis by blast
  next
    case None
    with Cons.prems s have rec: "tearDown_pods rest w1 = (err, w')" by simp
    from Cons.IH [OF rec] obtain fin k where
      f: "trace w' = trace w1 @ fin" "k \<le> length rest" "finalized fin = take k (map name rest)"
        "err = None \<longrightarrow> finalized fin = map name rest"
        "fds_opened fin = []" "spawn_attempts fin = []"
      by (elim conjE exE)
    have "trace w' = trace w @ (PodTearDown (name p) # fin)" using t1 f by simp
    moreover have "finalized (PodTearDown (name p) # fin) = take (Suc k) (map name (p # rest))"
      using f by (simp add: trace_Cons)
    moreover have "Suc k \<le> length (p # rest)" using f by simp
    moreover have "err = None \<longrightarrow> finalized (PodTearDown (name p) # fin) = map name (p # rest)"
      using f by (simp add: trace_Cons)
    moreover have "fds_opened (PodTearDown (name p) # fin) = []"
      "spawn_attempts (PodTearDown (name p) # fin) = []"
      using f by (simp_all add: trace_Cons)
    ultimately show ?thesis by blast
  qed
qed

lemma destroy_environments_trace:
  "\<exists>tl. trace (destroy_environments m es w) = trace w @ tl
     \<and> finalized tl = [] \<and> fds_opened tl = [] \<and> spawn_attempts tl = []"
proof (induction es arbitrary: w)
  case Nil
  show ?case by (simp add: trace_Nil)
next
  case (Cons e es)
  let ?w = "destroy_environment m e w"
  from Cons [of ?w] obtain tl where
    tl: "trace (destroy_environments m es ?w) = trace ?w @ tl"
      "finalized tl = []" "fds_opened tl = []" "spawn_attempts tl = []"
    by (elim conjE exE)
  have "trace (destroy_environments m (e # es) w) = trace w @ (DestroyEnvironment e # tl)"
    using tl by (simp add: destroy_environment_def)
  moreover have "finalized (DestroyEnvironment e # tl) = []"
    "fds_opened (DestroyEnvironment e # tl) = []" "spawn_attempts (DestroyEnvironment e # tl) = []"
    using tl by (simp_all add: trace_Cons)
  ultimately show ?case by blast
qed

lemma tearDown_trace:
  assumes "tearDown m w = (None, w')"
  shows "\<exists>fin. trace w' = trace w @ fin \<and> finalized fin = map name (pods m)
     \<and> fds_opened fin = [] \<and> spawn_attempts fin = []"
proof -
  obtain e wa where a: "tearDown_pods (pods m) w = (e, wa)" by (cases "tearDown_pods (pods m) w")
  with assms have e: "e = None" and w': "w' = destroy_environments m (envs m) wa"
    by (auto simp: tearDown_def split: option.splits)
  from tearDown_pods_trace [OF a] e obtain fin where
    f: "trace wa = trace w @ fin" "finalized fin = map name (pods m)"
      "fds_opened fin = []" "spawn_attempts fin = []"
    by blast
  from destroy_environments_trace [of m "envs m" wa] obtain tl where
    tl: "trace (destroy_environments m (envs m) wa) = trace wa @ tl"
      "finalized tl = []" "fds_opened tl = []" "spawn_attempts tl = []"
    by (elim conjE exE)
  have "trace w' = trace w @ (fin @ tl)" using w' f tl by simp
  moreover have "finalized (fin @ tl) = map name (pods m)" "fds_opened (fin @ tl) = []"
    "spawn_attempts (fin @ tl) = []"
    using f tl by (simp_all add: trace_append)
  ultimately show ?thesis by blast
qed

text \<open>
  Claim C9, as the code has it.  Whenever \<^verbatim>\<open>run\<close> returns, no job holds a process
  handle or a handle of a log file: the second loop has waited for every process handle
  and closed every log file handle, also those of a job whose \<^verbatim>\<open>Popen\<close> raised
  \<^verbatim>\<open>OSError\<close>, which holds an open log file and no process.  If no job held a handle
  when \<^verbatim>\<open>run\<close> began (and the handles of the world are older than the next free
  one), then the files closed during \<^verbatim>\<open>run\<close> are the files opened, the processes
  waited for are the processes spawned, and the open files and the processes not waited
  for are the same after \<^verbatim>\<open>run\<close> as before.
\<close>

theorem handles_released:
  assumes "run m w = (None, m1, w1)"
  shows "(\<forall>p \<in> set (pods m1). process_obj p = None \<and> logfile_obj p = None)
    \<and> map name (pods m1) = map name (pods m)
    \<and> ((\<forall>p \<in> set (pods m). process_obj p = None \<and> logfile_obj p = None)
        \<and> (\<forall>x \<in> set (open_files w) \<union> set (children w). x < next_handle w) \<longrightarrow>
         open_files w1 = open_files w \<and> children w1 = children w
         \<and> (\<exists>new. trace w1 = trace w @ new
               \<and> fds_closed new = fds_opened new \<and> pids_waited new = pids_spawned new))"
proof -
  from run_split [OF assms] obtain ps wa ps'
    where a: "run_loop m (pods m) w = (None, ps, wa)" and b: "wait_loop ps wa = (ps', w1)"
      and m1: "m1 = m\<lparr> pods := ps' \<rparr>"
    by (elim conjE exE)
  from wait_loop_effect [OF b] obtain newB where
    none: "\<forall>p \<in> set ps'. process_obj p = None \<and> logfile_obj p = None"
    and nameB: "map name ps' = map name ps"
    and tB: "trace w1 = trace wa @ newB"
    and oB: "fds_closed newB = log_handles ps" "pids_waited newB = proc_handles ps"
      "fds_opened newB = []" "pids_spawned newB = []"
    and fB: "open_files w1 = filter (\<lambda>x. x \<notin> set (log_handles ps)) (open_files wa)"
      "children w1 = filter (\<lambda>x. x \<notin> set (proc_handles ps)) (children wa)"
    by (elim conjE exE)
  note nameA = run_loop_names [OF a]
  have first: "\<forall>p \<in> set (pods m1). process_obj p = None \<and> logfile_obj p = None"
    using none m1 by simp
  have second: "map name (pods m1) = map name (pods m)"
    using nameA nameB m1 by simp
  have third: "open_files w1 = open_files w \<and> children w1 = children w
         \<and> (\<exists>new. trace w1 = trace w @ new
               \<and> fds_closed new = fds_opened new \<and> pids_waited new = pids_spawned new)"
    if h: "\<forall>p \<in> set (pods m). process_obj p = None \<and> logfile_obj p = None"
      and old: "\<forall>x \<in> set (open_files w) \<union> set (children w). x < next_handle w"
  proof -
    from run_loop_effect [OF a h] obtain newA where
      tA: "trace wa = trace w @ newA"
      and oA: "fds_opened newA = log_handles ps" "pids_spawned newA = proc_handles ps"
        "fds_closed newA = []" "pids_waited newA = []"
      and fA: "open_files wa = open_files w @ log_handles ps"
        "children wa = children w @ proc_handles ps"
      and bA: "\<forall>x \<in> set (log_handles ps @ proc_handles ps). next_handle w \<le> x"
      by (elim conjE exE)
    have "open_files w1 = filter (\<lambda>x. x \<notin> set (log_handles ps)) (open_files w @ log_handles ps)"
      using fB(1) fA(1) by simp
    also have "\<dots> = open_files w"
      using old bA by (intro filter_fresh [where n = "next_handle w"]) auto
    finally have fo: "open_files w1 = open_files w" .
    have "children w1 = filter (\<lambda>x. x \<notin> set (proc_handles ps)) (children w @ proc_handles ps)"
      using fB(2) fA(2) by simp
    also have "\<dots> = children w"
      using old bA by (intro filter_fresh [where n = "next_handle w"]) auto
    finally have fc: "children w1 = children w" .
    have tr: "trace w1 = trace w @ (newA @ newB)" using tA tB by simp
    have "fds_closed (newA @ newB) = fds_opened (newA @ newB)"
      "pids_waited (newA @ newB) = pids_spawned (newA @ newB)"
      using oA oB by (simp_all add: trace_append)
    with tr have "\<exists>new. trace w1 = trace w @ new
               \<and> fds_closed new = fds_opened new \<and> pids_waited new = pids_spawned new"
      by (intro exI [of _ "newA @ newB"] conjI)
    with fo fc show ?thesis by simp
  qed
  from first second third show ?thesis by blast
qed


theorem handles_released_witness:
  "map process_obj (pods (test_manager NoneEnvironmentManager three_pods)) = [None, None, None]
   \<and> map logfile_obj (pods (test_manager NoneEnvironmentManager three_pods)) = [None, None, None]
   \<and> open_files spawn_failing_world = [] \<and> children spawn_failing_world = []
   \<and> fst (run (test_manager NoneEnvironmentManager three_pods) spawn_failing_world) = None
   \<and> length (spawn_attempts (trace (snd (snd
         (run (test_manager NoneEnvironmentManager three_pods) spawn_failing_world))))) = 2
   \<and> pids_spawned (trace (snd (snd
         (run (test_manager NoneEnvironmentManager three_pods) spawn_failing_world)))) = []
   \<and> fds_opened (trace (snd (snd
         (run (test_manager NoneEnvironmentManager three_pods) spawn_failing_world)))) = [0, 1]
   \<and> fds_closed (trace (snd (snd
         (run (test_manager NoneEnvironmentManager three_pods) spawn_failing_world)))) = [0, 1]
   \<and> map process_obj (pods (fst (snd
         (run (test_manager NoneEnvironmentManager three_pods) spawn_failing_world)))) = [None, None, None]
   \<and> map logfile_obj (pods (fst (snd
         (run (test_manager NoneEnvironmentManager three_pods) spawn_failing_world)))) = [None, None, None]
   \<and> open_files (snd (snd
         (run (test_manager NoneEnvironmentManager three_pods) spawn_failing_world))) = []
   \<and> children (snd (snd
         (run (test_manager NoneEnvironmentManager three_pods) spawn_failing_world))) = []"
proof -
  let ?M = "test_manager NoneEnvironmentManager three_pods"
  let ?W = "spawn_failing_world"
  have h0: "map process_obj (pods ?M) = [None, None, None]"
    "map logfile_obj (pods ?M) = [None, None, None]"
    by (simp_all add: test_manager_def three_pods_def test_pod_def)
  have h1: "\<forall>p \<in> set (pods ?M). process_obj p = None \<and> logfile_obj p = None"
    by (simp add: test_manager_def three_pods_def test_pod_def)
  have w0: "open_files ?W = []" "children ?W = []"
    by (simp_all add: spawn_failing_world_def test_world_def)
  then have h2: "\<forall>x \<in> set (open_files ?W) \<union> set (children ?W). x < next_handle ?W"
    by simp
  obtain e m1 w1 where r: "run ?M ?W = (e, m1, w1)"
    by (cases "run ?M ?W") auto
  have ev: "(case run ?M ?W of (e, m, w) \<Rightarrow>
      (e, length (spawn_attempts (trace w)), pids_spawned (trace w), fds_opened (trace w),
       fds_closed (trace w), length (pods m)))
      = (None, 2, [], [0, 1], [0, 1], 3)"
    by code_simp
  with r have e: "e = None" and tr: "length (spawn_attempts (trace w1)) = 2"
    "pids_spawned (trace w1) = []" "fds_opened (trace w1) = [0, 1]"
    "fds_closed (trace w1) = [0, 1]" and len: "length (pods m1) = 3"
    by simp_all
  from r e have r': "run ?M ?W = (None, m1, w1)" by simp
  from handles_released [OF r'] h1 h2
  have none: "\<forall>p \<in> set (pods m1). process_obj p = None \<and> logfile_obj p = None"
    and res: "open_files w1 = open_files ?W" "children w1 = children ?W"
    by blast+
  from none have "map process_obj (pods m1) = map (\<lambda>p. None) (pods m1)"
    "map logfile_obj (pods m1) = map (\<lambda>p. None) (pods m1)"
    by simp_all
  with len have pods: "map process_obj (pods m1) = [None, None, None]"
    "map logfile_obj (pods m1) = [None, None, None]"
    by (simp_all add: map_replicate_const numeral_3_eq_3)
  from h0 w0 r e tr pods res show ?thesis by simp
qed

text \<open>
  The claim as the specification words it speaks of every exit path of the batch run.
  In the batch of three jobs below the driver script of the third job does not exist:
  the assertion of \<^verbatim>\<open>_check_pod_driver\<close> fails inside \<^verbatim>\<open>pod.setUp()\<close>, which
  \<^verbatim>\<open>run\<close> calls outside any \<^verbatim>\<open>try\<close>, and the exception leaves \<^verbatim>\<open>run\<close> before the
  second loop.  The first job keeps its process handle and its log file handle; its
  log file stays open and nobody has waited for its process.
\<close>

theorem handles_leak_counterexample:
  "fst (run (test_manager NoneEnvironmentManager three_pods) driver_missing_world)
     = Some AssertionError
   \<and> map process_obj (pods (fst (snd
         (run (test_manager NoneEnvironmentManager three_pods) driver_missing_world))))
     = [Some 1, None, None]
   \<and> map logfile_obj (pods (fst (snd
         (run (test_manager NoneEnvironmentManager three_pods) driver_missing_world))))
     = [Some 0, None, None]
   \<and> open_files (snd (snd
         (run (test_manager NoneEnvironmentManager three_pods) driver_missing_world))) = [0]
   \<and> children (snd (snd
         (run (test_manager NoneEnvironmentManager three_pods) driver_missing_world))) = [1]
   \<and> fds_closed (trace (snd (snd
         (run (test_manager NoneEnvironmentManager three_pods) driver_missing_world)))) = []
   \<and> pids_waited (trace (snd (snd
         (run (test_manager NoneEnvironmentManager three_pods) driver_missing_world)))) = []"
proof -
  let ?M = "test_manager NoneEnvironmentManager three_pods"
  let ?W = "driver_missing_world"
  obtain e m1 w1 where r: "run ?M ?W = (e, m1, w1)"
    by (cases "run ?M ?W") auto
  have "(case run ?M ?W of
      (e, m1, w1) \<Rightarrow>
        (e, map process_obj (pods m1), map logfile_obj (pods m1),
         open_files w1, children w1, fds_closed (trace w1), pids_waited (trace w1)))
   = (Some AssertionError, [Some 1, None, None], [Some 0, None, None], [0], [1], [], [])"
    by code_simp
  with r show ?thesis by simp
qed

text \<open>
  What \<^verbatim>\<open>run\<close> and \<^verbatim>\<open>tearDown\<close> do with a job that has missing files.
\<close>

lemma skipped_job_run_teardown:
  assumes "run m w = (None, m1, w1)" and "tearDown m1 w1 = (None, w2)"
    and "\<forall>p \<in> set (pods m). process_obj p = None \<and> logfile_obj p = None"
  shows "map name (pods m1) = map name (pods m)
    \<and> (\<exists>new. trace w1 = trace w @ new
          \<and> length (fds_opened new) = length (filter (\<lambda>p. missing_files p = []) (pods m1))
          \<and> length (spawn_attempts new) = length (filter (\<lambda>p. missing_files p = []) (pods m1))
          \<and> finalized new = [])
    \<and> (\<exists>fin. trace w2 = trace w1 @ fin \<and> finalized fin = map name (pods m1)
          \<and> fds_opened fin = [] \<and> spawn_attempts fin = [])
    \<and> (\<forall>p wa p1 wb. Diagnostic_setUp p wa = (None, p1, wb) \<and> missing_files p1 \<noteq> [] \<longrightarrow>
          run_pod m p wa = (None, p1, wb)
          \<and> process_obj p1 = process_obj p \<and> logfile_obj p1 = logfile_obj p
          \<and> open_files wb = open_files wa \<and> children wb = children wa
          \<and> (\<exists>new. trace wb = trace wa @ new \<and> fds_opened new = [] \<and> spawn_attempts new = []))"
proof -
  from run_split [OF assms(1)] obtain ps wa ps'
    where a: "run_loop m (pods m) w = (None, ps, wa)" and b: "wait_loop ps wa = (ps', w1)"
      and m1: "m1 = m\<lparr> pods := ps' \<rparr>"
    by (elim conjE exE)
  from run_loop_effect [OF a assms(3)] obtain newA where
    tA: "trace wa = trace w @ newA"
    and fA: "finalized newA = []"
    and nA: "map name ps = map name (pods m)"
    and cA: "length (fds_opened newA) = length (filter (\<lambda>p. missing_files p = []) ps)"
      "length (spawn_attempts newA) = length (filter (\<lambda>p. missing_files p = []) ps)"
    by (elim conjE exE) simp
  from wait_loop_effect [OF b] obtain newB where
    nB: "map name ps' = map name ps" and mB: "map missing_files ps' = map missing_files ps"
    and tB: "trace w1 = trace wa @ newB"
    and oB: "fds_opened newB = []" "spawn_attempts newB = []" "finalized newB = []"
    by (elim conjE exE)
  have runnable: "length (filter (\<lambda>p. missing_files p = []) ps')
      = length (filter (\<lambda>p. missing_files p = []) ps)"
  proof -
    have "length (filter (\<lambda>p. missing_files p = []) ps')
        = length (filter (\<lambda>x. x = []) (map missing_files ps'))"
      by (induction ps') simp_all
    also have "\<dots> = length (filter (\<lambda>x. x = []) (map missing_files ps))"
      by (simp only: mB)
    also have "\<dots> = length (filter (\<lambda>p. missing_files p = []) ps)"
      by (induction ps) simp_all
    finally show ?thesis .
  qed
  have first: "map name (pods m1) = map name (pods m)" using nA nB m1 by simp
  have "trace w1 = trace w @ (newA @ newB)" using tA tB by simp
  moreover have "length (fds_opened (newA @ newB)) = length (filter (\<lambda>p. missing_files p = []) (pods m1))"
    "length (spawn_attempts (newA @ newB)) = length (filter (\<lambda>p. missing_files p = []) (pods m1))"
    "finalized (newA @ newB) = []"
    using cA fA oB runnable m1 by (simp_all add: trace_append)
  ultimately have second: "\<exists>new. trace w1 = trace w @ new
          \<and> length (fds_opened new) = length (filter (\<lambda>p. missing_files p = []) (pods m1))
          \<and> length (spawn_attempts new) = length (filter (\<lambda>p. missing_files p = []) (pods m1))
          \<and> finalized new = []"
    by (intro exI [of _ "newA @ newB"] conjI)
  note third = tearDown_trace [OF assms(2)]
  have fourth: "run_pod m p wa = (None, p1, wb)
          \<and> process_obj p1 = process_obj p \<and> logfile_obj p1 = logfile_obj p
          \<and> open_files wb = open_files wa \<and> children wb = children wa
          \<and> (\<exists>new. trace wb = trace wa @ new \<and> fds_opened new = [] \<and> spawn_attempts new = [])"
    if s: "Diagnostic_setUp p wa = (None, p1, wb)" and miss: "missing_files p1 \<noteq> []"
    for p wa p1 wb
  proof -
    from run_pod_cases [OF s, of m] miss have r: "run_pod m p wa = (None, p1, wb)" by simp
    from Diagnostic_setUp_frame [OF s] obtain new where
      fr: "process_obj p1 = process_obj p" "logfile_obj p1 = logfile_obj p"
        "open_files wb = open_files wa" "children wb = children wa"
      and tr: "trace wb = trace wa @ new" "list_all is_MakeDirs new"
      by (elim conjE exE)
    from MakeDirs_only [OF tr(2)] tr(1)
    have "\<exists>new. trace wb = trace wa @ new \<and> fds_opened new = [] \<and> spawn_attempts new = []"
      by blast
    with r fr show ?thesis by simp
  qed
  from first second third fourth show ?thesis by blast
qed

subsection \<open>The binding of a job outlives run\<close>

lemma set_pod_env_frame:
  "process_obj (set_pod_env m p) = process_obj p"
  "logfile_obj (set_pod_env m p) = logfile_obj p"
  "name (set_pod_env m p) = name p"
  by (simp_all add: set_pod_env_def Let_def split: manager_kind.split)

lemma Diagnostic_setUp_env:
  assumes "Diagnostic_setUp p w = (err, p1, w1)"
  shows "env p1 = env p"
proof -
  obtain e1 wa where a: "set_pod_env_vars p w = (e1, wa)" by (cases "set_pod_env_vars p w")
  show ?thesis
  proof (cases e1)
    case (Some e)
    with assms a show ?thesis by (simp add: Diagnostic_setUp_def)
  next
    case None
    note e1 = this
    obtain e2 wb where b: "setup_pod_directories p wa = (e2, wb)"
      by (cases "setup_pod_directories p wa")
    show ?thesis
    proof (cases e2)
      case (Some e)
      with assms a b e1 show ?thesis by (simp add: Diagnostic_setUp_def)
    next
      case None
      note e2 = this
      obtain e3 pc where c: "check_pod_driver p wb = (e3, pc)" by (cases "check_pod_driver p wb")
      from check_pod_driver_frame [OF c] have "env pc = env p" by simp
      moreover from assms a b c e1 e2 have "env p1 = env pc"
        by (auto simp: Diagnostic_setUp_def split: option.splits sum.splits)
      ultimately show ?thesis by simp
    qed
  qed
qed

lemma run_pod_env:
  assumes "run_pod m p w = (err, p', w')"
  shows "env p' = env p"
proof -
  obtain e p1 w1 where s: "Diagnostic_setUp p w = (e, p1, w1)"
    by (cases "Diagnostic_setUp p w") auto
  note n = Diagnostic_setUp_env [OF s]
  from assms run_pod_cases [OF s, of m] n show ?thesis
    by (auto simp: Let_def split: option.splits if_splits)
qed

lemma run_loop_env:
  "run_loop m ps w = (err, ps', w') \<Longrightarrow> map env ps' = map env ps"
proof (induction ps arbitrary: w ps' w' err)
  case Nil
  then show ?case by simp
next
  case (Cons p rest)
  obtain e1 p1 w1 where r1: "run_pod m p w = (e1, p1, w1)"
    by (cases "run_pod m p w") auto
  note n1 = run_pod_env [OF r1]
  show ?case
  proof (cases e1)
    case (Some x)
    with Cons.prems r1 have "ps' = p1 # rest" by simp
    with n1 show ?thesis by simp
  next
    case None
    with Cons.prems r1 obtain rest' where rec: "run_loop m rest w1 = (err, rest', w')"
      and res: "ps' = p1 # rest'"
      by (auto split: prod.splits)
    from Cons.IH [OF rec] res n1 show ?thesis by simp
  qed
qed

lemma wait_pod_env: "wait_pod p w = (p', w') \<Longrightarrow> env p' = env p"
  by (cases "process_obj p"; cases "logfile_obj p") (auto simp: wait_pod_def)

lemma wait_loop_env:
  "wait_loop ps w = (ps', w') \<Longrightarrow> map env ps' = map env ps"
proof (induction ps arbitrary: w ps' w')
  case Nil
  then show ?case by simp
next
  case (Cons p rest)
  obtain p1 w1 where s: "wait_pod p w = (p1, w1)" by (cases "wait_pod p w")
  with Cons.prems obtain rest' where rec: "wait_loop rest w1 = (rest', w')" and res: "ps' = p1 # rest'"
    by (auto split: prod.splits)
  from Cons.IH [OF rec] res wait_pod_env [OF s] show ?case by simp
qed

lemma setUp_binds:
  assumes "setUp m0 w0 = (None, m, w)"
  shows "pods m = map (set_pod_env m0) (pods m0)
    \<and> (\<exists>new0. trace w = trace w0 @ new0 \<and> created new0 = envs m)
    \<and> env ` set (pods m) \<subseteq> set (envs m)"
proof -
  obtain ps es where b: "bind_pods m0 (pods m0) (envs m0) = (ps, es)"
    by (cases "bind_pods m0 (pods m0) (envs m0)")
  from bind_pods_props [OF b]
  have ps: "ps = map (set_pod_env m0) (pods m0)"
    and es: "set es = set (envs m0) \<union> env ` set ps"
    by simp_all
  let ?m1 = "m0\<lparr> pods := ps, envs := es \<rparr>"
  from assms b have m: "m = ?m1" and c: "create_environments ?m1 es w0 = (None, w)"
    by (auto simp: setUp_def Let_def split: prod.splits)
  from create_environments_trace [OF c] obtain new0
    where "trace w = trace w0 @ new0" "created new0 = es"
    by blast
  then have "\<exists>new0. trace w = trace w0 @ new0 \<and> created new0 = envs m"
    using m by auto
  moreover have "pods m = map (set_pod_env m0) (pods m0)" using m ps by simp
  moreover have "env ` set (pods m) \<subseteq> set (envs m)" using m es by auto
  ultimately show ?thesis by simp
qed

text \<open>
  Claim C8, as the code has it.  \<^verbatim>\<open>setUp\<close> binds every job of the batch to its
  environment and enters \<^verbatim>\<open>create_environment\<close> for the environment of every job,
  before \<^verbatim>\<open>run\<close> looks for any data file; so a job that \<^verbatim>\<open>run\<close> then skips for
  missing files has been bound, and it stays bound.  Such a job is never executed: the
  body of the loop leaves it by \<^verbatim>\<open>continue\<close> after the set-up, no log file is opened
  and \<^verbatim>\<open>Popen\<close> is not called for it, and it holds the handles it held before.  In a
  batch, the log files opened and the calls of \<^verbatim>\<open>Popen\<close> are as many as the jobs
  without missing files, and no \<^verbatim>\<open>tearDown\<close> is entered during \<^verbatim>\<open>run\<close>.  When
  \<^verbatim>\<open>tearDown\<close> of the manager returns, the \<^verbatim>\<open>tearDown\<close> of every job of the batch was
  entered once, in order, with or without missing files.
\<close>

theorem skipped_job_bound_finalized:
  assumes "setUp m0 w0 = (None, m, w)"
    and "run m w = (None, m1, w1)" and "tearDown m1 w1 = (None, w2)"
    and "\<forall>p \<in> set (pods m0). process_obj p = None \<and> logfile_obj p = None"
  shows "pods m = map (set_pod_env m0) (pods m0)
    \<and> (\<exists>new0. trace w = trace w0 @ new0 \<and> created new0 = envs m)
    \<and> env ` set (pods m) \<subseteq> set (envs m)
    \<and> map env (pods m1) = map env (pods m)
    \<and> map name (pods m1) = map name (pods m)
    \<and> (\<exists>new. trace w1 = trace w @ new
          \<and> length (fds_opened new) = length (filter (\<lambda>p. missing_files p = []) (pods m1))
          \<and> length (spawn_attempts new) = length (filter (\<lambda>p. missing_files p = []) (pods m1))
          \<and> finalized new = [])
    \<and> (\<exists>fin. trace w2 = trace w1 @ fin \<and> finalized fin = map name (pods m1)
          \<and> fds_opened fin = [] \<and> spawn_attempts fin = [])
    \<and> (\<forall>p wa p1 wb. Diagnostic_setUp p wa = (None, p1, wb) \<and> missing_files p1 \<noteq> [] \<longrightarrow>
          run_pod m p wa = (None, p1, wb)
          \<and> env p1 = env p
          \<and> process_obj p1 = process_obj p \<and> logfile_obj p1 = logfile_obj p
          \<and> open_files wb = open_files wa \<and> children wb = children wa
          \<and> (\<exists>new. trace wb = trace wa @ new \<and> fds_opened new = [] \<and> spawn_attempts new = []))"
proof -
  note bound = setUp_binds [OF assms(1)]
  from bound assms(4) have h: "\<forall>p \<in> set (pods m). process_obj p = None \<and> logfile_obj p = None"
    by (simp add: set_pod_env_frame)
  note rest = skipped_job_run_teardown [OF assms(2) assms(3) h]
  from run_split [OF assms(2)] obtain ps wa ps'
    where a: "run_loop m (pods m) w = (None, ps, wa)" and b: "wait_loop ps wa = (ps', w1)"
      and m1: "m1 = m\<lparr> pods := ps' \<rparr>"
    by (elim conjE exE)
  from run_loop_env [OF a] wait_loop_env [OF b] m1
  have envs: "map env (pods m1) = map env (pods m)" by simp
  have per_pod: "env p1 = env p" if "Diagnostic_setUp p wa = (None, p1, wb)" for p wa p1 wb
    using that by (rule Diagnostic_setUp_env)
  from bound envs rest per_pod show ?thesis by blast
qed

theorem skipped_job_bound_finalized_witness:
  "map process_obj (pods (test_manager CondaEnvironmentManager two_pods)) = [None, None]
   \<and> map logfile_obj (pods (test_manager CondaEnvironmentManager two_pods)) = [None, None]
   \<and> (case setUp (test_manager CondaEnvironmentManager two_pods) (test_world []) of
        (e0, m, w) \<Rightarrow>
          (e0, map env (pods m), created (trace w),
           case run m w of
             (e, m1, w1) \<Rightarrow>
               (e, map name (pods m1), map env (pods m1), map missing_files (pods m1),
                length (fds_opened (trace w1)), length (spawn_attempts (trace w1)),
                case tearDown m1 w1 of (e2, w2) \<Rightarrow> (e2, finalized (trace w2)))))
      = (None, [''_MDTF-diagnostics-python'', ''_MDTF-diagnostics-python''],
         [''_MDTF-diagnostics-python''],
         None, [''a'', ''b''],
         [''_MDTF-diagnostics-python'', ''_MDTF-diagnostics-python''],
         [[], [''/data/mon/case.prc.mon.nc'']], 1, 1,
         None, [''a'', ''b''])
   \<and> (case Diagnostic_setUp
              (set_pod_env (test_manager CondaEnvironmentManager two_pods)
                 (test_pod ''b'' [''python''] [pr_var]))
              (test_world []) of
         (e, p1, wb) \<Rightarrow> (e, missing_files p1))
      = (None, [''/data/mon/case.prc.mon.nc''])
   \<and> run_pod (fst (snd (setUp (test_manager CondaEnvironmentManager two_pods) (test_world []))))
         (set_pod_env (test_manager CondaEnvironmentManager two_pods)
            (test_pod ''b'' [''python''] [pr_var]))
         (test_world [])
      = Diagnostic_setUp
          (set_pod_env (test_manager CondaEnvironmentManager two_pods)
             (test_pod ''b'' [''python''] [pr_var]))
          (test_world [])"
proof -
  let ?M = "test_manager CondaEnvironmentManager two_pods"
  let ?W = "test_world []"
  have h0: "map process_obj (pods ?M) = [None, None]"
    "map logfile_obj (pods ?M) = [None, None]"
    by (simp_all add: test_manager_def two_pods_def test_pod_def)
  have h1: "\<forall>p \<in> set (pods ?M). process_obj p = None \<and> logfile_obj p = None"
    by (simp add: test_manager_def two_pods_def test_pod_def)
  have names: "map name (pods ?M) = [''a'', ''b'']"
    by (simp add: test_manager_def two_pods_def test_pod_def)
  obtain e0 m w where s: "setUp ?M ?W = (e0, m, w)"
    by (cases "setUp ?M ?W") auto
  obtain e m1 w1 where r: "run m w = (e, m1, w1)"
    by (cases "run m w") auto
  obtain e2 w2 where t: "tearDown m1 w1 = (e2, w2)"
    by (cases "tearDown m1 w1")
  have ev: "(case setUp ?M ?W of
        (e0, m, w) \<Rightarrow>
          (e0, map env (pods m), created (trace w),
           case run m w of
             (e, m1, w1) \<Rightarrow>
               (e, map missing_files (pods m1),
                length (fds_opened (trace w1)), length (spawn_attempts (trace w1)),
                case tearDown m1 w1 of (e2, w2) \<Rightarrow> (e2, finalized (trace w2)))))
      = (None, [''_MDTF-diagnostics-python'', ''_MDTF-diagnostics-python''],
         [''_MDTF-diagnostics-python''],
         None, [[], [''/data/mon/case.prc.mon.nc'']], 1, 1, None, [''a'', ''b''])"
    by code_simp
  with s r t have e: "e0 = None" "e = None" "e2 = None"
    and vals: "map env (pods m) = [''_MDTF-diagnostics-python'', ''_MDTF-diagnostics-python'']"
      "created (trace w) = [''_MDTF-diagnostics-python'']"
      "map missing_files (pods m1) = [[], [''/data/mon/case.prc.mon.nc'']]"
      "length (fds_opened (trace w1)) = 1" "length (spawn_attempts (trace w1)) = 1"
      "finalized (trace w2) = [''a'', ''b'']"
    by simp_all
  from s r t e have s': "setUp ?M ?W = (None, m, w)" and r': "run m w = (None, m1, w1)"
    and t': "tearDown m1 w1 = (None, w2)"
    by simp_all
  note th = skipped_job_bound_finalized [OF s' r' t' h1]
  from th have b: "pods m = map (set_pod_env ?M) (pods ?M)"
    by (elim conjE)
  from th have en: "map env (pods m1) = map env (pods m)"
    by (elim conjE)
  from th have nm: "map name (pods m1) = map name (pods m)"
    by (elim conjE)
  from b have "map name (pods m) = map name (pods ?M)"
    by (simp add: set_pod_env_frame o_def)
  with nm names have n1: "map name (pods m1) = [''a'', ''b'']" by simp
  from en vals have e1: "map env (pods m1) = [''_MDTF-diagnostics-python'', ''_MDTF-diagnostics-python'']"
    by simp
  let ?B = "set_pod_env ?M (test_pod ''b'' [''python''] [pr_var])"
  obtain eb pb wb where sb: "Diagnostic_setUp ?B ?W = (eb, pb, wb)"
    by (cases "Diagnostic_setUp ?B ?W") auto
  have evb: "(case Diagnostic_setUp ?B ?W of (e, p1, wb) \<Rightarrow> (e, missing_files p1))
      = (None, [''/data/mon/case.prc.mon.nc''])"
    by code_simp
  with sb have vb: "eb = None" "missing_files pb \<noteq> []" by simp_all
  from sb vb have sb': "Diagnostic_setUp ?B ?W = (None, pb, wb)" by simp
  from th have "\<forall>p wa p1 wb. Diagnostic_setUp p wa = (None, p1, wb) \<and> missing_files p1 \<noteq> [] \<longrightarrow>
      run_pod m p wa = (None, p1, wb)"
    by (elim conjE) blast
  with sb' vb(2) have "run_pod m ?B ?W = (None, pb, wb)" by blast
  with sb' s have skip: "run_pod (fst (snd (setUp ?M ?W))) ?B ?W = Diagnostic_setUp ?B ?W"
    by simp
  have main: "(case setUp ?M ?W of
        (e0, m, w) \<Rightarrow>
          (e0, map env (pods m), created (trace w),
           case run m w of
             (e, m1, w1) \<Rightarrow>
               (e, map name (pods m1), map env (pods m1), map missing_files (pods m1),
                length (fds_opened (trace w1)), length (spawn_attempts (trace w1)),
                case tearDown m1 w1 of (e2, w2) \<Rightarrow> (e2, finalized (trace w2)))))
      = (None, [''_MDTF-diagnostics-python'', ''_MDTF-diagnostics-python''],
         [''_MDTF-diagnostics-python''],
         None, [''a'', ''b''],
         [''_MDTF-diagnostics-python'', ''_MDTF-diagnostics-python''],
         [[], [''/data/mon/case.prc.mon.nc'']], 1, 1,
         None, [''a'', ''b''])"
    using s r t e vals n1 e1 by simp
  from h0 main evb skip show ?thesis by (intro conjI)
qed

text \<open>
  The claim as the specification words it says that a skipped job never enters the
  state in which the manager has resolved and ensured its environment.  For the one job
  below, whose data file and alternate are missing, \<^verbatim>\<open>setUp\<close> of the conda manager
  binds the job to the python environment and enters \<^verbatim>\<open>create_environment\<close> for it;
  then \<^verbatim>\<open>run\<close> finds the missing file and skips the job.
\<close>

theorem skipped_job_bound_counterexample:
  "fst (setUp (test_manager CondaEnvironmentManager one_skipped_pod) (test_world [])) = None
   \<and> map env (pods (fst (snd
         (setUp (test_manager CondaEnvironmentManager one_skipped_pod) (test_world [])))))
     = [''_MDTF-diagnostics-python'']
   \<and> created (trace (snd (snd
         (setUp (test_manager CondaEnvironmentManager one_skipped_pod) (test_world [])))))
     = [''_MDTF-diagnostics-python'']
   \<and> fst (run
         (fst (snd (setUp (test_manager CondaEnvironmentManager one_skipped_pod) (test_world []))))
         (snd (snd (setUp (test_manager CondaEnvironmentManager one_skipped_pod) (test_world [])))))
     = None
   \<and> map env (pods (fst (snd (run
         (fst (snd (setUp (test_manager CondaEnvironmentManager one_skipped_pod) (test_world []))))
         (snd (snd (setUp (test_manager CondaEnvironmentManager one_skipped_pod) (test_world []))))))))
     = [''_MDTF-diagnostics-python'']
   \<and> map missing_files (pods (fst (snd (run
         (fst (snd (setUp (test_manager CondaEnvironmentManager one_skipped_pod) (test_world []))))
         (snd (snd (setUp (test_manager CondaEnvironmentManager one_skipped_pod) (test_world []))))))))
     = [[''/data/mon/case.prc.mon.nc'']]
   \<and> spawn_attempts (trace (snd (snd (run
         (fst (snd (setUp (test_manager CondaEnvironmentManager one_skipped_pod) (test_world []))))
         (snd (snd (setUp (test_manager CondaEnvironmentManager one_skipped_pod) (test_world []))))))))
     = []"
proof -
  let ?M = "test_manager CondaEnvironmentManager one_skipped_pod"
  let ?W = "test_world []"
  obtain e m w where s: "setUp ?M ?W = (e, m, w)"
    by (cases "setUp ?M ?W") auto
  obtain e1 m1 w1 where r: "run m w = (e1, m1, w1)"
    by (cases "run m w") auto
  have "(case setUp ?M ?W of
      (e, m, w) \<Rightarrow>
        (e, map env (pods m), created (trace w),
         case run m w of
           (e1, m1, w1) \<Rightarrow>
             (e1, map env (pods m1), map missing_files (pods m1), spawn_attempts (trace w1))))
   = (None, [''_MDTF-diagnostics-python''], [''_MDTF-diagnostics-python''],
      None, [''_MDTF-diagnostics-python''], [[''/data/mon/case.prc.mon.nc'']], [])"
    by code_simp
  with s r show ?thesis by simp
qed

subsection \<open>Failure of the creation of an environment\<close>









end
